theory Spec2Isabelle
  imports Main "HOL-Library.Word"
begin

unbundle bit_operations_syntax

section \<open>The ELF loader of apps/ELFLoader/elf\_loader.cc\<close>

text \<open>
  The loader runs on a 32-bit microcontroller with one flat, unprotected address space.
  A pointer is a 32-bit word, the null pointer is the word 0, and memory is a total
  function from addresses to bytes. Pointer arithmetic wraps around modulo \<open>2 ^ 32\<close>.
  Multi-byte fields are little-endian and may be read at any alignment.
\<close>

type_synonym addr = "32 word"
type_synonym byte = "8 word"
type_synonym memory = "addr \<Rightarrow> byte"

definition nullptr :: addr where
  "nullptr = 0"

definition read_u16 :: "memory \<Rightarrow> addr \<Rightarrow> 16 word" where
  "read_u16 m a = ucast (m a) OR push_bit 8 (ucast (m (a + 1)))"

definition read_u32 :: "memory \<Rightarrow> addr \<Rightarrow> 32 word" where
  "read_u32 m a =
     ucast (m a) OR push_bit 8 (ucast (m (a + 1))) OR
     push_bit 16 (ucast (m (a + 2))) OR push_bit 24 (ucast (m (a + 3)))"

text \<open>
  \<open>in_range a base n\<close>: the address \<open>a\<close> is one of the \<open>n\<close> bytes that start at
  \<open>base\<close>. \<open>apart a n b k\<close>: the \<open>n\<close> bytes at \<open>a\<close> and the \<open>k\<close> bytes at \<open>b\<close>
  have no address in common.
\<close>

definition in_range :: "addr \<Rightarrow> addr \<Rightarrow> 32 word \<Rightarrow> bool" where
  "in_range a base n = (a - base < n)"

definition apart :: "addr \<Rightarrow> 32 word \<Rightarrow> addr \<Rightarrow> 32 word \<Rightarrow> bool" where
  "apart a n b k = (n = 0 \<or> k = 0 \<or> (n \<le> b - a \<and> k \<le> a - b))"

text \<open>
  The C library's \<open>memcpy(dst, src, n)\<close>: the \<open>n\<close> bytes at \<open>dst\<close> become the bytes
  that stood at \<open>src\<close> before the call, every other byte keeps its value. (C leaves the
  result open when the two ranges overlap; the model reads the source as it was before
  the call.)
\<close>

definition memcpy :: "memory \<Rightarrow> addr \<Rightarrow> addr \<Rightarrow> 32 word \<Rightarrow> memory" where
  "memcpy m dst src n = (\<lambda>a. if in_range a dst n then m (src + (a - dst)) else m a)"

subsection \<open>The wire format\<close>

text \<open>
  Modelled from the spec: the header apps/ELFLoader/elf\_loader.h, which declares
  \<open>ElfloaderCommand\<close>, \<open>ElfloaderSetSize\<close> and \<open>ElfloaderBytes\<close>, is not among the
  sources. The spec's framing table gives opcode 0 = SetSize with payload \<open>size: u32\<close>,
  opcode 1 = Bytes with payload \<open>offset: u32\<close>, \<open>size: u32\<close> and the raw bytes, opcode
  2 = Done with no payload, all fields little-endian and packed behind the opcode byte.
\<close>

datatype ElfloaderCommand = SetSize | Bytes | Done

definition command_of :: "byte \<Rightarrow> ElfloaderCommand option" where
  "command_of b =
     (if b = 0 then Some SetSize else if b = 1 then Some Bytes
      else if b = 2 then Some Done else None)"

definition sizeof_ElfloaderSetSize :: "32 word" where
  "sizeof_ElfloaderSetSize = 4"

definition sizeof_ElfloaderBytes :: "32 word" where
  "sizeof_ElfloaderBytes = 8"

definition set_size_size :: "memory \<Rightarrow> addr \<Rightarrow> 32 word" where
  "set_size_size m p = read_u32 m p"

definition bytes_offset :: "memory \<Rightarrow> addr \<Rightarrow> 32 word" where
  "bytes_offset m p = read_u32 m p"

definition bytes_size :: "memory \<Rightarrow> addr \<Rightarrow> 32 word" where
  "bytes_size m p = read_u32 m (p + 4)"

subsection \<open>The ELF structures of the system header elf.h\<close>

text \<open>
  \<open>Elf32_Ehdr\<close> is 52 bytes: \<open>e_entry\<close> at offset 24, \<open>e_phoff\<close> at 28, \<open>e_flags\<close> at 36,
  \<open>e_phentsize\<close> at 42, \<open>e_phnum\<close> at 44. \<open>Elf32_Phdr\<close> is 32 bytes: \<open>p_type\<close> at offset
  0, \<open>p_offset\<close> at 4, \<open>p_paddr\<close> at 12, \<open>p_filesz\<close> at 16. The code reads every field
  through a pointer into memory, so each accessor takes the memory and the pointer.
\<close>

definition sizeof_Elf32_Ehdr :: "32 word" where
  "sizeof_Elf32_Ehdr = 52"

definition sizeof_Elf32_Phdr :: "32 word" where
  "sizeof_Elf32_Phdr = 32"

definition e_entry :: "memory \<Rightarrow> addr \<Rightarrow> 32 word" where
  "e_entry m h = read_u32 m (h + 24)"

definition e_phoff :: "memory \<Rightarrow> addr \<Rightarrow> 32 word" where
  "e_phoff m h = read_u32 m (h + 28)"

definition e_flags :: "memory \<Rightarrow> addr \<Rightarrow> 32 word" where
  "e_flags m h = read_u32 m (h + 36)"

definition e_phentsize :: "memory \<Rightarrow> addr \<Rightarrow> 16 word" where
  "e_phentsize m h = read_u16 m (h + 42)"

definition e_phnum :: "memory \<Rightarrow> addr \<Rightarrow> 16 word" where
  "e_phnum m h = read_u16 m (h + 44)"

definition p_type :: "memory \<Rightarrow> addr \<Rightarrow> 32 word" where
  "p_type m ph = read_u32 m ph"

definition p_offset :: "memory \<Rightarrow> addr \<Rightarrow> 32 word" where
  "p_offset m ph = read_u32 m (ph + 4)"

definition p_paddr :: "memory \<Rightarrow> addr \<Rightarrow> 32 word" where
  "p_paddr m ph = read_u32 m (ph + 12)"

definition p_filesz :: "memory \<Rightarrow> addr \<Rightarrow> 32 word" where
  "p_filesz m ph = read_u32 m (ph + 16)"

definition PT_LOAD :: "32 word" where
  "PT_LOAD = 1"

definition EF_ARM_EABI_VERSION :: "32 word \<Rightarrow> 32 word" where
  "EF_ARM_EABI_VERSION flags = flags AND 0xFF000000"

definition EF_ARM_EABI_VER5 :: "32 word" where
  "EF_ARM_EABI_VER5 = 0x05000000"

subsection \<open>The state of the program\<close>

text \<open>
  The statics of the file and the effects it has on the operating system: the software
  timer \<open>usb_timer\<close> as \<open>xTimerCreate\<close> set it up, the parameter of every
  \<open>xTaskCreate(elfloader_main, ...)\<close> call in order, the tasks \<open>vTaskSuspend\<close> was
  called on, and the size of every \<open>malloc\<close> request in order.

  The session pointer \<open>elfloader_recv_image\<close> is a field of the state and not a cell of
  \<open>mem\<close>: a copy that lands on the storage of the static itself is not followed by the
  model, so nothing is concluded here about the pointer after a copy to an address the
  host chose freely.
\<close>

datatype task_ref = UsbDeviceTask | LoaderTask nat

record timer =
  period_ms :: nat
  auto_reload :: bool
  timer_id :: task_ref
  active :: bool

record loader_state =
  mem :: memory
  elfloader_recv_image :: addr
  usb_timer :: timer
  loader_tasks :: "addr list"
  suspended :: "task_ref list"
  malloc_sizes :: "32 word list"

text \<open>
  A failed \<open>assert\<close> stops the whole device; a call of the entry point that does not
  come back leaves the machine to the loaded image. Both end the program: the result
  \<open>Inl (h, s)\<close> says it ended with \<open>h\<close> in state \<open>s\<close>, \<open>Inr s\<close> that the function came
  back with state \<open>s\<close>.
\<close>

datatype assertion =
  Assert_SetSize_length | Assert_Bytes_length | Assert_EABI_VER5 | Assert_phentsize

datatype halt = AssertionFailed assertion | EnteredImage addr

type_synonym outcome = "(halt \<times> loader_state) + loader_state"

subsection \<open>The transport receiver: elfloader\_recv\<close>

text \<open>
  \<open>elfloader_recv s buffer len p\<close>: the packet of \<open>len\<close> bytes stands in memory at
  \<open>buffer\<close>; \<open>p\<close> is what \<open>malloc\<close> answers should the command call it (\<open>nullptr\<close> when
  the allocation fails). \<open>xTimerStop\<close> and \<open>xTaskCreate\<close> are taken to succeed. A first
  byte that is no opcode falls through the switch.
\<close>

definition elfloader_recv :: "loader_state \<Rightarrow> addr \<Rightarrow> 32 word \<Rightarrow> addr \<Rightarrow> outcome" where
  "elfloader_recv s buffer len p =
     (case command_of (mem s buffer) of
        Some SetSize \<Rightarrow>
          if len \<noteq> sizeof_ElfloaderSetSize + 1 then Inl (AssertionFailed Assert_SetSize_length, s)
          else Inr (s\<lparr>usb_timer := (usb_timer s)\<lparr>active := False\<rparr>,
                      elfloader_recv_image := p,
                      malloc_sizes := malloc_sizes s @ [set_size_size (mem s) (buffer + 1)]\<rparr>)
      | Some Bytes \<Rightarrow>
          if len < sizeof_ElfloaderBytes + 1 then Inl (AssertionFailed Assert_Bytes_length, s)
          else Inr (s\<lparr>mem := memcpy (mem s)
                              (elfloader_recv_image s + bytes_offset (mem s) (buffer + 1))
                              (buffer + 1 + sizeof_ElfloaderBytes)
                              (bytes_size (mem s) (buffer + 1))\<rparr>)
      | Some Done \<Rightarrow> Inr (s\<lparr>loader_tasks := loader_tasks s @ [elfloader_recv_image s]\<rparr>)
      | None \<Rightarrow> Inr s)"

text \<open>
  A run of the receiver over a sequence of packets. Each packet is the buffer address,
  the length and the answer of \<open>malloc\<close>; before each call the USB stack has put the
  packet's bytes into memory, which \<open>deliver\<close> does. A failed assertion ends the run.
\<close>

fun store_bytes :: "memory \<Rightarrow> addr \<Rightarrow> byte list \<Rightarrow> memory" where
  "store_bytes m a [] = m"
| "store_bytes m a (b # bs) = store_bytes (m(a := b)) (a + 1) bs"

definition deliver :: "loader_state \<Rightarrow> addr \<Rightarrow> byte list \<Rightarrow> loader_state" where
  "deliver s buffer bs = s\<lparr>mem := store_bytes (mem s) buffer bs\<rparr>"

fun recv_all :: "loader_state \<Rightarrow> (addr \<times> byte list \<times> addr) list \<Rightarrow> outcome" where
  "recv_all s [] = Inr s"
| "recv_all s ((buffer, bs, p) # ps) =
     (case elfloader_recv (deliver s buffer bs) buffer (of_nat (length bs)) p of
        Inl e \<Rightarrow> Inl e
      | Inr s' \<Rightarrow> recv_all s' ps)"

text \<open>
  A packet of the transport: at least the opcode byte, at most the 64 bytes of the
  receive buffer \<open>elfloader_data\<close>.
\<close>

definition usb_packet :: "byte list \<Rightarrow> bool" where
  "usb_packet bs = (0 < length bs \<and> length bs \<le> 64)"

subsection \<open>The loader and the hand-off: elfloader\_main\<close>

text \<open>
  The address of program header \<open>i\<close>, and the body of the loop over the program headers.
  The headers are read from memory as it stands when the loop reaches them.
\<close>

definition program_header :: "memory \<Rightarrow> addr \<Rightarrow> nat \<Rightarrow> addr" where
  "program_header m application_elf i =
     application_elf + e_phoff m application_elf + sizeof_Elf32_Phdr * of_nat i"

definition load_step :: "memory \<Rightarrow> addr \<Rightarrow> nat \<Rightarrow> memory" where
  "load_step m application_elf i =
     (let ph = program_header m application_elf i in
      if p_type m ph \<noteq> PT_LOAD then m
      else if p_filesz m ph = 0 then m
      else memcpy m (p_paddr m ph) (application_elf + p_offset m ph) (p_filesz m ph))"

function load_segments :: "memory \<Rightarrow> addr \<Rightarrow> nat \<Rightarrow> memory" where
  "load_segments m application_elf i =
     (if i < unat (e_phnum m application_elf)
      then load_segments (load_step m application_elf i) application_elf (Suc i)
      else m)"
  by pat_completeness auto
termination
proof (relation "measure (\<lambda>(m, application_elf, i). 65536 - i)")
  show "wf (measure (\<lambda>(m, application_elf, i). 65536 - i))"
    by simp
next
  fix m :: memory and application_elf :: addr and i :: nat
  assume "i < unat (e_phnum m application_elf)"
  moreover have "unat (e_phnum m application_elf) < 65536"
    using unsigned_less [of "e_phnum m application_elf", where ?'a = nat] by simp
  ultimately show "((load_step m application_elf i, application_elf, Suc i),
                    (m, application_elf, i))
                   \<in> measure (\<lambda>(m, application_elf, i). 65536 - i)"
    by simp
qed

declare load_segments.simps [simp del]

text \<open>
  \<open>elfloader_main\<close> runs as the task \<open>self\<close> with the parameter \<open>param\<close>.
  \<open>ReadToMemory\<close> is the filesystem collaborator: it answers the pointer to the file's
  bytes and the memory that holds them. \<open>entry_point_fn\<close> is what the loaded image does
  when called at an address: \<open>None\<close> when the call never returns, the memory it leaves
  when it does.

  \<open>load_and_run\<close> is the function from its line 110 on, common to both values of
  \<open>param\<close>: the two assertions in their order, the loop, the call of the entry point
  read from the header after the loop, and \<open>vTaskSuspend(NULL)\<close> should the call
  return.
\<close>

definition load_and_run ::
  "(addr \<Rightarrow> memory \<Rightarrow> memory option) \<Rightarrow> task_ref \<Rightarrow> loader_state \<Rightarrow> addr \<Rightarrow> outcome" where
  "load_and_run entry_point_fn self s application_elf =
     (if EF_ARM_EABI_VERSION (e_flags (mem s) application_elf) \<noteq> EF_ARM_EABI_VER5
      then Inl (AssertionFailed Assert_EABI_VER5, s)
      else if e_phentsize (mem s) application_elf \<noteq> ucast sizeof_Elf32_Phdr
      then Inl (AssertionFailed Assert_phentsize, s)
      else
        let m1 = load_segments (mem s) application_elf 0;
            entry = e_entry m1 application_elf
        in case entry_point_fn entry m1 of
             None \<Rightarrow> Inl (EnteredImage entry, s\<lparr>mem := m1\<rparr>)
           | Some m2 \<Rightarrow> Inr (s\<lparr>mem := m2, suspended := suspended s @ [self]\<rparr>))"

definition elfloader_main ::
  "(string \<Rightarrow> memory \<Rightarrow> addr \<times> memory) \<Rightarrow> (addr \<Rightarrow> memory \<Rightarrow> memory option) \<Rightarrow>
   task_ref \<Rightarrow> loader_state \<Rightarrow> addr \<Rightarrow> outcome" where
  "elfloader_main ReadToMemory entry_point_fn self s param =
     (let (application_elf, m0) =
            (if param = nullptr then ReadToMemory ''/default.elf'' (mem s) else (param, mem s))
      in load_and_run entry_point_fn self (s\<lparr>mem := m0\<rparr>) application_elf)"

subsection \<open>The fallback timer: main and usb\_timer\_callback\<close>

text \<open>
  What \<open>main\<close> leaves behind when the scheduler starts: the session pointer is the null
  pointer of its static initialiser, and \<open>usb_timer\<close> has been created with
  \<open>pdMS_TO_TICKS(500)\<close>, \<open>pdFALSE\<close> for the auto-reload flag and the USB task as its
  identifier, and started.
\<close>

definition boot :: "memory \<Rightarrow> loader_state" where
  "boot m =
     \<lparr>mem = m, elfloader_recv_image = nullptr,
      usb_timer = \<lparr>period_ms = 500, auto_reload = False, timer_id = UsbDeviceTask,
                   active = True\<rparr>,
      loader_tasks = [], suspended = [], malloc_sizes = []\<rparr>"

text \<open>
  \<open>usb_timer_callback\<close> suspends the task that is the timer's identifier and creates the
  loader task with the null pointer as its parameter.
\<close>

definition usb_timer_callback :: "loader_state \<Rightarrow> loader_state" where
  "usb_timer_callback s =
     s\<lparr>suspended := suspended s @ [timer_id (usb_timer s)],
       loader_tasks := loader_tasks s @ [nullptr]\<rparr>"

subsection \<open>Runs of the program\<close>

text \<open>The state a run ended in, whether it came back or stopped the device.\<close>

definition final_state :: "outcome \<Rightarrow> loader_state" where
  "final_state r = (case r of Inl (h, s) \<Rightarrow> s | Inr s \<Rightarrow> s)"

text \<open>
  Every way the code of the file runs once the scheduler has started: the USB stack
  delivers a packet to \<open>elfloader_recv\<close>, the timer service calls
  \<open>usb_timer_callback\<close>, or the scheduler runs a created \<open>elfloader_main\<close> task on its
  parameter. The timer service calls the callback of an active timer only, and a timer
  without auto-reload is inactive once it has expired. Each callback runs as one step;
  the order of the steps is the scheduler's, and \<open>run_steps\<close> takes any.
\<close>

datatype step =
  Packet addr "byte list" addr
| TimerExpired
| RunLoader nat

definition program_step ::
  "(string \<Rightarrow> memory \<Rightarrow> addr \<times> memory) \<Rightarrow> (addr \<Rightarrow> memory \<Rightarrow> memory option) \<Rightarrow>
   loader_state \<Rightarrow> step \<Rightarrow> outcome" where
  "program_step ReadToMemory entry_point_fn s st =
     (case st of
        Packet buffer bs p \<Rightarrow>
          elfloader_recv (deliver s buffer bs) buffer (of_nat (length bs)) p
      | TimerExpired \<Rightarrow>
          if active (usb_timer s)
          then Inr (usb_timer_callback
                      (s\<lparr>usb_timer := (usb_timer s)\<lparr>active := auto_reload (usb_timer s)\<rparr>\<rparr>))
          else Inr s
      | RunLoader k \<Rightarrow>
          if k < length (loader_tasks s)
          then elfloader_main ReadToMemory entry_point_fn (LoaderTask k) s (loader_tasks s ! k)
          else Inr s)"

fun run_steps ::
  "(string \<Rightarrow> memory \<Rightarrow> addr \<times> memory) \<Rightarrow> (addr \<Rightarrow> memory \<Rightarrow> memory option) \<Rightarrow>
   loader_state \<Rightarrow> step list \<Rightarrow> outcome" where
  "run_steps ReadToMemory entry_point_fn s [] = Inr s"
| "run_steps ReadToMemory entry_point_fn s (st # sts) =
     (case program_step ReadToMemory entry_point_fn s st of
        Inl e \<Rightarrow> Inl e
      | Inr s' \<Rightarrow> run_steps ReadToMemory entry_point_fn s' sts)"





subsection \<open>Images whose segments keep clear of the image\<close>

text \<open>
  An entry is loadable when the loop copies it: its type is \<open>PT_LOAD\<close> and its file
  size is not zero. \<open>table_apart\<close> holds of an image in memory when no destination
  range of a loadable entry touches the ELF header, the program header table or the
  file bytes of that same entry. \<open>segments_apart\<close> asks in addition that no destination
  range touches the file bytes of any loadable entry. Destination ranges may overlap
  one another.
\<close>

definition loadable :: "memory \<Rightarrow> addr \<Rightarrow> bool" where
  "loadable m ph = (p_type m ph = PT_LOAD \<and> p_filesz m ph \<noteq> 0)"

definition loadable_entries :: "memory \<Rightarrow> addr \<Rightarrow> nat list" where
  "loadable_entries m application_elf =
     filter (\<lambda>i. loadable m (program_header m application_elf i))
       [0..<unat (e_phnum m application_elf)]"

definition dst_apart :: "memory \<Rightarrow> addr \<Rightarrow> nat \<Rightarrow> addr \<Rightarrow> 32 word \<Rightarrow> bool" where
  "dst_apart m application_elf i b k =
     apart (p_paddr m (program_header m application_elf i))
           (p_filesz m (program_header m application_elf i)) b k"

definition table_apart :: "memory \<Rightarrow> addr \<Rightarrow> bool" where
  "table_apart m application_elf =
     (\<forall>i \<in> set (loadable_entries m application_elf).
        dst_apart m application_elf i application_elf sizeof_Elf32_Ehdr \<and>
        dst_apart m application_elf i (application_elf + e_phoff m application_elf)
          (sizeof_Elf32_Phdr * ucast (e_phnum m application_elf)) \<and>
        dst_apart m application_elf i
          (application_elf + p_offset m (program_header m application_elf i))
          (p_filesz m (program_header m application_elf i)))"

definition segments_apart :: "memory \<Rightarrow> addr \<Rightarrow> bool" where
  "segments_apart m application_elf =
     (table_apart m application_elf \<and>
      (\<forall>i \<in> set (loadable_entries m application_elf).
         \<forall>j \<in> set (loadable_entries m application_elf).
           dst_apart m application_elf i
             (application_elf + p_offset m (program_header m application_elf j))
             (p_filesz m (program_header m application_elf j))))"

text \<open>
  The copy the loop makes for entry \<open>j\<close> of the table of \<open>m\<close>, applied to a memory \<open>m'\<close>.
\<close>

definition copy_entry :: "memory \<Rightarrow> addr \<Rightarrow> memory \<Rightarrow> nat \<Rightarrow> memory" where
  "copy_entry m application_elf m' j =
     memcpy m' (p_paddr m (program_header m application_elf j))
       (application_elf + p_offset m (program_header m application_elf j))
       (p_filesz m (program_header m application_elf j))"

text \<open>
  Where the bytes of memory come from after the first \<open>n\<close> entries of the table of
  \<open>m\<close>: \<open>untouched m application_elf n a\<close> says that \<open>a\<close> lies in no destination range of
  a loadable entry below \<open>n\<close>; \<open>last_writer m application_elf n j a\<close> says that \<open>j\<close> is the
  last loadable entry below \<open>n\<close> whose destination range holds \<open>a\<close>. Two invariants of
  the loop: \<open>loaded_upto m application_elf i m'\<close> says that \<open>m'\<close> is \<open>m\<close> after the copies
  of the loadable entries below \<open>i\<close>, in their order, and is \<open>m\<close> at every untouched
  address; \<open>copied_upto m application_elf i m'\<close> says that \<open>m'\<close> is \<open>m\<close> at every
  untouched address and holds, at every other address, the file byte of its last writer.
\<close>

definition untouched :: "memory \<Rightarrow> addr \<Rightarrow> nat \<Rightarrow> addr \<Rightarrow> bool" where
  "untouched m application_elf n a =
     (\<forall>j<n. loadable m (program_header m application_elf j) \<longrightarrow>
        \<not> in_range a (p_paddr m (program_header m application_elf j))
                     (p_filesz m (program_header m application_elf j)))"

definition last_writer :: "memory \<Rightarrow> addr \<Rightarrow> nat \<Rightarrow> nat \<Rightarrow> addr \<Rightarrow> bool" where
  "last_writer m application_elf n j a =
     (j < n \<and> loadable m (program_header m application_elf j) \<and>
      in_range a (p_paddr m (program_header m application_elf j))
                 (p_filesz m (program_header m application_elf j)) \<and>
      (\<forall>l<n. j < l \<longrightarrow> loadable m (program_header m application_elf l) \<longrightarrow>
         \<not> in_range a (p_paddr m (program_header m application_elf l))
                      (p_filesz m (program_header m application_elf l))))"

definition loaded_upto :: "memory \<Rightarrow> addr \<Rightarrow> nat \<Rightarrow> memory \<Rightarrow> bool" where
  "loaded_upto m application_elf i m' =
     (m' = foldl (copy_entry m application_elf) m
             (filter (\<lambda>j. loadable m (program_header m application_elf j)) [0..<i]) \<and>
      (\<forall>a. untouched m application_elf i a \<longrightarrow> m' a = m a))"

definition copied_upto :: "memory \<Rightarrow> addr \<Rightarrow> nat \<Rightarrow> memory \<Rightarrow> bool" where
  "copied_upto m application_elf i m' =
     ((\<forall>a. untouched m application_elf i a \<longrightarrow> m' a = m a) \<and>
      (\<forall>j a. last_writer m application_elf i j a \<longrightarrow>
         m' a = m (application_elf + p_offset m (program_header m application_elf j) +
                   (a - p_paddr m (program_header m application_elf j)))))"

subsection \<open>Concrete inputs\<close>

definition zero_memory :: memory where
  "zero_memory = (\<lambda>a. 0)"


text \<open>
  A small image of 88 bytes: EABI version 5 in \<open>e_flags\<close>, entry point 0x20000001, one
  program header of 32 bytes at offset 52, of type \<open>PT_LOAD\<close>, which places the 4 file
  bytes at offset 84 at the physical address 0x20000000.
\<close>

definition ex_elf_bytes :: "byte list" where
  "ex_elf_bytes =
     [0x7F, 0x45, 0x4C, 0x46, 1, 1, 1, 0,  0, 0, 0, 0, 0, 0, 0, 0,
      2, 0, 0x28, 0,  1, 0, 0, 0,  1, 0, 0, 0x20,  52, 0, 0, 0,
      0, 0, 0, 0,  0, 0, 0, 5,  52, 0, 32, 0,  1, 0, 0, 0,
      0, 0, 0, 0,
      1, 0, 0, 0,  84, 0, 0, 0,  0, 0, 0, 0x20,  0, 0, 0, 0x20,
      4, 0, 0, 0,  4, 0, 0, 0,  5, 0, 0, 0,  4, 0, 0, 0,
      0xDE, 0xAD, 0xBE, 0xEF]"

abbreviation ex_image :: addr where
  "ex_image \<equiv> 0x80001000"

definition ex_elf_memory :: memory where
  "ex_elf_memory = store_bytes zero_memory ex_image ex_elf_bytes"

text \<open>A filesystem that holds that image under the default path and nothing else.\<close>

definition ex_ReadToMemory :: "string \<Rightarrow> memory \<Rightarrow> addr \<times> memory" where
  "ex_ReadToMemory path m =
     (if path = ''/default.elf'' then (ex_image, store_bytes m ex_image ex_elf_bytes)
      else (nullptr, m))"

text \<open>A loaded image that keeps the processor, and one that returns at once.\<close>

definition ex_never_returns :: "addr \<Rightarrow> memory \<Rightarrow> memory option" where
  "ex_never_returns entry m = None"

definition ex_returns :: "addr \<Rightarrow> memory \<Rightarrow> memory option" where
  "ex_returns entry m = Some m"

text \<open>
  SetSize(10) answered with a buffer at 0x80001000, then Bytes(offset = 5, size = 10) with
  ten payload bytes: five of them lie past the declared size.
\<close>

definition ex_overflow_packets :: "(addr \<times> byte list \<times> addr) list" where
  "ex_overflow_packets =
     [(0x2000, [0, 10, 0, 0, 0], 0x80001000),
      (0x2000, [1, 5, 0, 0, 0, 10, 0, 0, 0,
                0xA0, 0xA1, 0xA2, 0xA3, 0xA4, 0xA5, 0xA6, 0xA7, 0xA8, 0xA9], nullptr)]"

text \<open>A session at 0x80001000 and the packet Bytes(offset = 2, size = 3) in the receive buffer.\<close>

definition ex_bytes_state :: loader_state where
  "ex_bytes_state =
     deliver ((boot zero_memory)\<lparr>elfloader_recv_image := 0x80001000\<rparr>) 0x2000
       [1, 2, 0, 0, 0, 3, 0, 0, 0, 0xB0, 0xB1, 0xB2]"

text \<open>With no SetSize before it: Bytes(offset = 0x100, size = 1), and the state it leaves.\<close>

definition ex_null_packets :: "(addr \<times> byte list \<times> addr) list" where
  "ex_null_packets = [(0x2000, [1, 0, 1, 0, 0, 1, 0, 0, 0, 0xAA], nullptr)]"

definition ex_null_state :: loader_state where
  "ex_null_state = final_state (recv_all (boot zero_memory) ex_null_packets)"

text \<open>
  With no SetSize and no Bytes before it: a Done and a packet whose first byte is no
  opcode, and the state they leave.
\<close>

definition ex_done_prefix :: "(addr \<times> byte list \<times> addr) list" where
  "ex_done_prefix = [(0x2000, [2], nullptr), (0x2000, [9, 0, 0, 0], nullptr)]"

definition ex_done_prefix_state :: loader_state where
  "ex_done_prefix_state = final_state (recv_all (boot zero_memory) ex_done_prefix)"


text \<open>
  The image loaded by a host session, and two images the loader refuses: one with EABI
  version 4 and a program header entry size of 40, one with the entry size alone wrong.
\<close>

definition ex_loaded_state :: loader_state where
  "ex_loaded_state = (boot ex_elf_memory)\<lparr>elfloader_recv_image := ex_image\<rparr>"

definition ex_bad_abi_memory :: memory where
  "ex_bad_abi_memory = ex_elf_memory(ex_image + 39 := 4, ex_image + 42 := 40)"

definition ex_bad_phentsize_memory :: memory where
  "ex_bad_phentsize_memory = ex_elf_memory(ex_image + 42 := 40)"

definition ex_bad_abi_state :: loader_state where
  "ex_bad_abi_state = (boot ex_bad_abi_memory)\<lparr>elfloader_recv_image := ex_image\<rparr>"

definition ex_bad_phentsize_state :: loader_state where
  "ex_bad_phentsize_state = (boot ex_bad_phentsize_memory)\<lparr>elfloader_recv_image := ex_image\<rparr>"

text \<open>
  An image of 122 bytes that passes both checks and has two program headers of type
  \<open>PT_LOAD\<close>. The first places the 2 file bytes 1, 0 at the address of the header's own
  \<open>e_phnum\<close>; the second places 4 file bytes at the physical address 0x20000000.
\<close>

definition ex_shrinking_bytes :: "byte list" where
  "ex_shrinking_bytes =
     [0x7F, 0x45, 0x4C, 0x46, 1, 1, 1, 0,  0, 0, 0, 0, 0, 0, 0, 0,
      2, 0, 0x28, 0,  1, 0, 0, 0,  1, 0, 0, 0x20,  52, 0, 0, 0,
      0, 0, 0, 0,  0, 0, 0, 5,  52, 0, 32, 0,  2, 0, 0, 0,
      0, 0, 0, 0,
      1, 0, 0, 0,  116, 0, 0, 0,  0x2C, 0x10, 0, 0x80,  0x2C, 0x10, 0, 0x80,
      2, 0, 0, 0,  2, 0, 0, 0,  6, 0, 0, 0,  1, 0, 0, 0,
      1, 0, 0, 0,  118, 0, 0, 0,  0, 0, 0, 0x20,  0, 0, 0, 0x20,
      4, 0, 0, 0,  4, 0, 0, 0,  5, 0, 0, 0,  4, 0, 0, 0,
      1, 0, 0xDE, 0xAD, 0xBE, 0xEF]"

definition ex_shrinking_memory :: memory where
  "ex_shrinking_memory = store_bytes zero_memory ex_image ex_shrinking_bytes"





section \<open>Properties of the receiver\<close>

lemma deliver_usb_timer: "usb_timer (deliver s buffer bs) = usb_timer s"
  by (simp add: deliver_def)





subsection \<open>Memory ranges\<close>

lemma in_range_widen:
  assumes "in_range a (b + off) n" and "unat off + unat n \<le> unat d"
  shows "in_range a b d"
proof -
  have k: "unat (a - (b + off)) < unat n"
    using assms(1) by (simp add: in_range_def word_less_nat_alt)
  have "unat (off + (a - (b + off))) \<le> unat off + unat (a - (b + off))"
    unfolding unat_word_ariths by (rule mod_less_eq_dividend)
  moreover have "off + (a - (b + off)) = a - b" by simp
  ultimately have "unat (a - b) \<le> unat off + unat (a - (b + off))" by simp
  with k assms(2) show ?thesis
    by (simp add: in_range_def word_less_nat_alt)
qed

lemma memcpy_inside: "in_range a dst n \<Longrightarrow> memcpy m dst src n a = m (src + (a - dst))"
  by (simp add: memcpy_def)

lemma memcpy_outside: "\<not> in_range a dst n \<Longrightarrow> memcpy m dst src n a = m a"
  by (simp add: memcpy_def)

lemma store_bytes_outside:
  "length bs \<le> unat (x - a) \<Longrightarrow> store_bytes m a bs x = m x"
proof (induction bs arbitrary: m a)
  case Nil
  then show ?case by simp
next
  case (Cons b bs)
  from Cons.prems have pos: "0 < unat (x - a)" by simp
  then have ne: "x \<noteq> a" by auto
  have "x - a \<noteq> 0" using ne by simp
  then have "1 \<le> x - a" by (simp add: word_le_nat_alt unat_gt_0 Suc_leI)
  then have "unat (x - a - 1) = unat (x - a) - 1"
    by (simp add: unat_sub)
  with Cons.prems have "length bs \<le> unat (x - a - 1)"
    by simp
  moreover have eq: "x - (a + 1) = x - a - 1" by simp
  ultimately have "length bs \<le> unat (x - (a + 1))"
    by (simp only: eq)
  from Cons.IH [OF this] ne show ?case by simp
qed

lemma deliver_opcode:
  assumes "usb_packet bs"
  shows "mem (deliver s buffer bs) buffer = hd bs"
proof -
  from assms obtain b bs' where bs: "bs = b # bs'" and len: "length bs' < 64"
    by (cases bs) (auto simp: usb_packet_def)
  have "unat (buffer - (buffer + 1)) = 4294967295"
    by (simp add: unsigned_minus_1_eq_mask mask_eq_exp_minus_1)
  with len have "length bs' \<le> unat (buffer - (buffer + 1))" by simp
  from store_bytes_outside [OF this] show ?thesis
    by (simp add: deliver_def bs)
qed

lemma deliver_recv_image: "elfloader_recv_image (deliver s buffer bs) = elfloader_recv_image s"
  by (simp add: deliver_def)

subsection \<open>Bytes commands and the declared size\<close>

text \<open>
  The receiver does not reject the Bytes command that overruns the declared size: after
  SetSize(10), Bytes(offset = 5, size = 10) comes back without a failure and the byte at
  index 14 of the session buffer, which was 0, holds the last payload byte.
\<close>

theorem bytes_overflow_counterexample:
  "\<not> isl (recv_all (boot zero_memory) ex_overflow_packets) \<and>
   malloc_sizes (final_state (recv_all (boot zero_memory) ex_overflow_packets)) = [10] \<and>
   elfloader_recv_image (final_state (recv_all (boot zero_memory) ex_overflow_packets))
     = 0x80001000 \<and>
   zero_memory (0x80001000 + 14) = 0 \<and>
   mem (final_state (recv_all (boot zero_memory) ex_overflow_packets)) (0x80001000 + 14)
     = 0xA9"
  by (simp add: ex_overflow_packets_def boot_def zero_memory_def deliver_def
      elfloader_recv_def command_of_def sizeof_ElfloaderSetSize_def sizeof_ElfloaderBytes_def
      set_size_size_def bytes_offset_def bytes_size_def read_u32_def memcpy_def in_range_def
      final_state_def nullptr_def)

text \<open>
  C1, as the code has it. A Bytes command (opcode 1, a packet of at least the asserted 9
  bytes) is never rejected on account of its offset and size: the receiver keeps no
  declared size and compares nothing with it. It copies \<open>size\<close> bytes from behind the
  packet's header to the session pointer plus \<open>offset\<close>; those bytes and no others
  change. So whenever \<open>offset + size \<le> declared_size\<close>, no byte outside the range
  \<open>[0, declared_size)\<close> of the session buffer is modified.
\<close>

theorem bytes_copied_without_bounds_check:
  assumes "command_of (mem s buffer) = Some Bytes"
    and "sizeof_ElfloaderBytes + 1 \<le> len"
  shows "\<exists>s'. elfloader_recv s buffer len p = Inr s' \<and>
           (\<forall>a. in_range a (elfloader_recv_image s + bytes_offset (mem s) (buffer + 1))
                   (bytes_size (mem s) (buffer + 1)) \<longrightarrow>
                 mem s' a = mem s (buffer + 1 + sizeof_ElfloaderBytes +
                   (a - (elfloader_recv_image s + bytes_offset (mem s) (buffer + 1))))) \<and>
           (\<forall>a. \<not> in_range a (elfloader_recv_image s + bytes_offset (mem s) (buffer + 1))
                   (bytes_size (mem s) (buffer + 1)) \<longrightarrow> mem s' a = mem s a) \<and>
           (\<forall>declared_size.
              unat (bytes_offset (mem s) (buffer + 1)) + unat (bytes_size (mem s) (buffer + 1))
                \<le> unat declared_size \<longrightarrow>
              (\<forall>a. \<not> in_range a (elfloader_recv_image s) declared_size \<longrightarrow>
                 mem s' a = mem s a))"
proof -
  let ?dst = "elfloader_recv_image s + bytes_offset (mem s) (buffer + 1)"
  let ?n = "bytes_size (mem s) (buffer + 1)"
  let ?m' = "memcpy (mem s) ?dst (buffer + 1 + sizeof_ElfloaderBytes) ?n"
  have run: "elfloader_recv s buffer len p = Inr (s\<lparr>mem := ?m'\<rparr>)"
    using assms by (simp add: elfloader_recv_def not_less [symmetric])
  have inside: "\<forall>a. in_range a ?dst ?n \<longrightarrow>
      ?m' a = mem s (buffer + 1 + sizeof_ElfloaderBytes + (a - ?dst))"
    by (simp add: memcpy_inside)
  have outside: "\<forall>a. \<not> in_range a ?dst ?n \<longrightarrow> ?m' a = mem s a"
    by (simp add: memcpy_outside)
  have bounded: "\<forall>d. unat (bytes_offset (mem s) (buffer + 1)) + unat ?n \<le> unat d \<longrightarrow>
      (\<forall>a. \<not> in_range a (elfloader_recv_image s) d \<longrightarrow> ?m' a = mem s a)"
    using in_range_widen memcpy_outside by blast
  from run inside outside bounded show ?thesis by simp
qed


theorem bytes_copied_without_bounds_check_witness:
  "command_of (mem ex_bytes_state 0x2000) = Some Bytes \<and>
   sizeof_ElfloaderBytes + 1 \<le> (12 :: 32 word) \<and>
   (\<exists>s'. elfloader_recv ex_bytes_state 0x2000 12 nullptr = Inr s' \<and>
      mem s' 0x80001003 = 0xB1 \<and> mem s' 0x80001005 = mem ex_bytes_state 0x80001005 \<and>
      mem s' 0x8000100A = mem ex_bytes_state 0x8000100A)"
proof -
  have c: "command_of (mem ex_bytes_state 0x2000) = Some Bytes"
    by (simp add: ex_bytes_state_def deliver_def boot_def zero_memory_def command_of_def)
  have l: "sizeof_ElfloaderBytes + 1 \<le> (12 :: 32 word)"
    by (simp add: sizeof_ElfloaderBytes_def)
  have img: "elfloader_recv_image ex_bytes_state = 0x80001000"
    by (simp add: ex_bytes_state_def deliver_def)
  have off: "bytes_offset (mem ex_bytes_state) (0x2000 + 1) = 2"
    by (simp add: ex_bytes_state_def deliver_def boot_def zero_memory_def bytes_offset_def
        read_u32_def)
  have n: "bytes_size (mem ex_bytes_state) (0x2000 + 1) = 3"
    by (simp add: ex_bytes_state_def deliver_def boot_def zero_memory_def bytes_size_def
        read_u32_def)
  have src: "mem ex_bytes_state 0x200A = 0xB1"
    by (simp add: ex_bytes_state_def deliver_def boot_def zero_memory_def)
  from bytes_copied_without_bounds_check [OF c l, of nullptr]
  obtain s' where run: "elfloader_recv ex_bytes_state 0x2000 12 nullptr = Inr s'"
    and inside: "\<And>a. in_range a (0x80001000 + 2) 3 \<Longrightarrow>
        mem s' a = mem ex_bytes_state (0x2000 + 1 + sizeof_ElfloaderBytes + (a - (0x80001000 + 2)))"
    and outside: "\<And>a. \<not> in_range a (0x80001000 + 2) 3 \<Longrightarrow> mem s' a = mem ex_bytes_state a"
    and bounded: "\<And>d a. unat (2 :: 32 word) + unat (3 :: 32 word) \<le> unat d \<Longrightarrow>
        \<not> in_range a 0x80001000 d \<Longrightarrow> mem s' a = mem ex_bytes_state a"
    unfolding img off n by blast
  have "mem s' 0x80001003 = 0xB1"
    using inside [of "0x80001003"] src by (simp add: in_range_def sizeof_ElfloaderBytes_def)
  moreover have "mem s' 0x80001005 = mem ex_bytes_state 0x80001005"
    using outside [of "0x80001005"] by (simp add: in_range_def)
  moreover have "mem s' 0x8000100A = mem ex_bytes_state 0x8000100A"
    using bounded [of 10 "0x8000100A"] by (simp add: in_range_def)
  ultimately show ?thesis using c l run by simp
qed

subsection \<open>Commands before any SetSize\<close>

lemma elfloader_recv_no_write_keeps_image:
  "command_of (mem s buffer) \<noteq> Some SetSize \<Longrightarrow> command_of (mem s buffer) \<noteq> Some Bytes \<Longrightarrow>
   elfloader_recv s buffer len p = Inr s' \<Longrightarrow>
   elfloader_recv_image s' = elfloader_recv_image s \<and> mem s' = mem s"
  by (auto simp: elfloader_recv_def split: option.splits ElfloaderCommand.splits if_splits)

lemma recv_all_no_write_keeps_image:
  "\<forall>(buffer, bs, p) \<in> set ps. usb_packet bs \<and> command_of (hd bs) \<noteq> Some SetSize \<and>
      command_of (hd bs) \<noteq> Some Bytes \<Longrightarrow>
   recv_all s ps = Inr s' \<Longrightarrow> elfloader_recv_image s' = elfloader_recv_image s"
proof (induction ps arbitrary: s)
  case Nil
  then show ?case by simp
next
  case (Cons pkt ps)
  obtain buffer bs p where pkt: "pkt = (buffer, bs, p)"
    by (cases pkt) auto
  from Cons.prems(1) have ok: "usb_packet bs" "command_of (hd bs) \<noteq> Some SetSize"
      "command_of (hd bs) \<noteq> Some Bytes"
    and rest: "\<forall>(buffer, bs, p) \<in> set ps. usb_packet bs \<and> command_of (hd bs) \<noteq> Some SetSize \<and>
      command_of (hd bs) \<noteq> Some Bytes"
    by (simp_all add: pkt)
  from Cons.prems(2) obtain s1
    where s1: "elfloader_recv (deliver s buffer bs) buffer (of_nat (length bs)) p = Inr s1"
      and s': "recv_all s1 ps = Inr s'"
    by (auto simp: pkt split: sum.splits)
  have "command_of (mem (deliver s buffer bs) buffer) \<noteq> Some SetSize"
    "command_of (mem (deliver s buffer bs) buffer) \<noteq> Some Bytes"
    using ok by (simp_all add: deliver_opcode)
  from elfloader_recv_no_write_keeps_image [OF this s1]
  have "elfloader_recv_image s1 = elfloader_recv_image s"
    by (simp add: deliver_recv_image)
  with Cons.IH [OF rest s'] show ?case by simp
qed

text \<open>
  A Done as the first packet after boot is not rejected and changes the state: the
  loader task is created, with the null pointer as its parameter. A Bytes as the first
  packet is not rejected either: Bytes(offset = 0x100, size = 1) stores its payload byte
  at address 0x100, through the null session pointer.
\<close>

theorem done_before_setsize_counterexample:
  "elfloader_recv (deliver (boot zero_memory) 0x2000 [2]) 0x2000 1 nullptr =
     Inr ((deliver (boot zero_memory) 0x2000 [2])\<lparr>loader_tasks := [nullptr]\<rparr>) \<and>
   \<not> isl (recv_all (boot zero_memory) ex_null_packets) \<and>
   zero_memory 0x100 = 0 \<and>
   mem (final_state (recv_all (boot zero_memory) ex_null_packets)) 0x100 = 0xAA"
  by (simp add: ex_null_packets_def boot_def zero_memory_def deliver_def
      elfloader_recv_def command_of_def sizeof_ElfloaderBytes_def
      bytes_offset_def bytes_size_def read_u32_def memcpy_def in_range_def
      final_state_def nullptr_def)


text \<open>
  C4, as the code has it. In a run of the receiver from boot over packets none of which
  is a SetSize or a Bytes, so that the receiver has written nothing, the session pointer
  is still the null pointer, and a Done command is not rejected: it creates the loader
  task with the null pointer as its parameter, and that task creation is the only change
  to the receiver's state.
\<close>

theorem done_before_setsize_creates_null_task:
  assumes "\<forall>(buffer, bs, p) \<in> set ps. usb_packet bs \<and> command_of (hd bs) \<noteq> Some SetSize \<and>
             command_of (hd bs) \<noteq> Some Bytes"
    and "recv_all (boot m) ps = Inr s"
    and "usb_packet bs" and "command_of (hd bs) = Some Done"
  shows "elfloader_recv_image s = nullptr \<and>
         elfloader_recv (deliver s buffer bs) buffer (of_nat (length bs)) p =
           Inr ((deliver s buffer bs)\<lparr>loader_tasks := loader_tasks s @ [nullptr]\<rparr>)"
proof -
  have img: "elfloader_recv_image s = nullptr"
    using recv_all_no_write_keeps_image [OF assms(1,2)] by (simp add: boot_def)
  have "command_of (mem (deliver s buffer bs) buffer) = Some Done"
    using assms(3,4) by (simp add: deliver_opcode)
  then have "elfloader_recv (deliver s buffer bs) buffer (of_nat (length bs)) p =
      Inr ((deliver s buffer bs)\<lparr>loader_tasks :=
             loader_tasks (deliver s buffer bs) @ [elfloader_recv_image (deliver s buffer bs)]\<rparr>)"
    by (simp add: elfloader_recv_def)
  with img show ?thesis by (simp add: deliver_def)
qed

theorem done_before_setsize_creates_null_task_witness:
  "recv_all (boot zero_memory) ex_done_prefix = Inr ex_done_prefix_state \<and>
   usb_packet [2] \<and> command_of (hd [2]) = Some Done \<and>
   loader_tasks ex_done_prefix_state = [nullptr] \<and>
   elfloader_recv_image ex_done_prefix_state = nullptr \<and>
   elfloader_recv (deliver ex_done_prefix_state 0x2000 [2]) 0x2000 (of_nat (length [2 :: byte]))
       nullptr =
     Inr ((deliver ex_done_prefix_state 0x2000 [2])\<lparr>loader_tasks := [nullptr, nullptr]\<rparr>)"
proof -
  have ps: "\<forall>(buffer, bs, p) \<in> set ex_done_prefix.
      usb_packet bs \<and> command_of (hd bs) \<noteq> Some SetSize \<and> command_of (hd bs) \<noteq> Some Bytes"
    by (simp add: ex_done_prefix_def usb_packet_def command_of_def)
  have run: "recv_all (boot zero_memory) ex_done_prefix = Inr ex_done_prefix_state"
    by (simp add: ex_done_prefix_state_def ex_done_prefix_def elfloader_recv_def deliver_def
        boot_def zero_memory_def command_of_def final_state_def)
  have tasks: "loader_tasks ex_done_prefix_state = [nullptr]"
    by (simp add: ex_done_prefix_state_def ex_done_prefix_def elfloader_recv_def deliver_def
        boot_def zero_memory_def command_of_def final_state_def)
  have pk: "usb_packet [2]" by (simp add: usb_packet_def)
  have dn: "command_of (hd [2]) = Some Done" by (simp add: command_of_def)
  from done_before_setsize_creates_null_task [OF ps run pk dn, of "0x2000" nullptr]
       run pk dn tasks
  show ?thesis by simp
qed

subsection \<open>A SetSize whose allocation fails\<close>




section \<open>Properties of the loader\<close>

subsection \<open>The example image\<close>

lemma ex_elf_memory_header:
  "e_flags ex_elf_memory ex_image = 0x05000000"
  "e_phentsize ex_elf_memory ex_image = 32"
  "e_phnum ex_elf_memory ex_image = 1"
  "e_phoff ex_elf_memory ex_image = 52"
  "e_entry ex_elf_memory ex_image = 0x20000001"
  by (simp_all add: ex_elf_memory_def ex_elf_bytes_def zero_memory_def
      e_flags_def e_phentsize_def e_phnum_def e_phoff_def e_entry_def read_u32_def read_u16_def)

lemma ex_elf_memory_phdr:
  "program_header ex_elf_memory ex_image 0 = 0x80001034"
  by (simp add: program_header_def ex_elf_memory_header sizeof_Elf32_Phdr_def)

lemma ex_elf_memory_segment:
  "p_type ex_elf_memory 0x80001034 = 1"
  "p_offset ex_elf_memory 0x80001034 = 84"
  "p_paddr ex_elf_memory 0x80001034 = 0x20000000"
  "p_filesz ex_elf_memory 0x80001034 = 4"
  by (simp_all add: ex_elf_memory_def ex_elf_bytes_def zero_memory_def
      p_type_def p_offset_def p_paddr_def p_filesz_def read_u32_def)

lemma ex_elf_memory_payload:
  "ex_elf_memory 0x80001056 = 0xBE" "ex_elf_memory 0x20000004 = 0"
  by (simp_all add: ex_elf_memory_def ex_elf_bytes_def zero_memory_def)

lemma ex_loadable_entries: "loadable_entries ex_elf_memory ex_image = [0]"
  by (simp add: loadable_entries_def ex_elf_memory_header ex_elf_memory_phdr ex_elf_memory_segment loadable_def
      PT_LOAD_def)

lemma ex_segments_apart: "segments_apart ex_elf_memory ex_image"
  by (simp add: segments_apart_def table_apart_def ex_loadable_entries dst_apart_def apart_def
      ex_elf_memory_header ex_elf_memory_phdr ex_elf_memory_segment sizeof_Elf32_Ehdr_def
      sizeof_Elf32_Phdr_def)

lemma ex_load_segments:
  "load_segments ex_elf_memory ex_image 0 =
     memcpy ex_elf_memory 0x20000000 0x80001054 4"
proof -
  let ?m1 = "memcpy ex_elf_memory 0x20000000 0x80001054 4"
  have step: "load_step ex_elf_memory ex_image 0 = ?m1"
    by (simp add: load_step_def ex_elf_memory_phdr ex_elf_memory_segment PT_LOAD_def)
  have "e_phnum ?m1 ex_image = e_phnum ex_elf_memory ex_image"
    by (simp add: e_phnum_def read_u16_def memcpy_def in_range_def)
  then have stop: "load_segments ?m1 ex_image (Suc 0) = ?m1"
    by (subst load_segments.simps) (simp add: ex_elf_memory_header)
  show ?thesis
    by (subst load_segments.simps) (simp add: ex_elf_memory_header step stop)
qed

lemma ex_loaded_entry:
  "e_entry (memcpy ex_elf_memory 0x20000000 0x80001054 4) ex_image = 0x20000001"
proof -
  have "e_entry (memcpy ex_elf_memory 0x20000000 0x80001054 4) ex_image =
      e_entry ex_elf_memory ex_image"
    by (simp add: e_entry_def read_u32_def memcpy_def in_range_def)
  then show ?thesis by (simp add: ex_elf_memory_header)
qed

lemma ex_bad_abi_memory_header:
  "e_flags ex_bad_abi_memory ex_image = 0x04000000"
  "e_phentsize ex_bad_abi_memory ex_image = 40"
  by (simp_all add: ex_bad_abi_memory_def ex_elf_memory_def ex_elf_bytes_def
      zero_memory_def e_flags_def e_phentsize_def read_u32_def read_u16_def)

lemma ex_bad_phentsize_memory_header:
  "e_flags ex_bad_phentsize_memory ex_image = 0x05000000"
  "e_phentsize ex_bad_phentsize_memory ex_image = 40"
  by (simp_all add: ex_bad_phentsize_memory_def ex_elf_memory_def ex_elf_bytes_def
      zero_memory_def e_flags_def e_phentsize_def read_u32_def read_u16_def)

subsection \<open>The two paths into the loader\<close>

lemma elfloader_main_host:
  "param \<noteq> nullptr \<Longrightarrow>
   elfloader_main ReadToMemory entry_point_fn self s param =
     load_and_run entry_point_fn self s param"
  by (simp add: elfloader_main_def)

lemma elfloader_main_default:
  "elfloader_main ReadToMemory entry_point_fn self s nullptr =
     load_and_run entry_point_fn self
       (s\<lparr>mem := snd (ReadToMemory ''/default.elf'' (mem s))\<rparr>)
       (fst (ReadToMemory ''/default.elf'' (mem s)))"
  by (simp add: elfloader_main_def split_beta)

subsection \<open>Validation\<close>

text \<open>
  C3. The loader checks the image before the loop over the program headers, in this
  order: first the EABI version in \<open>e_flags\<close>, then \<open>e_phentsize\<close> against the size of
  \<open>Elf32_Phdr\<close>. An image that fails the first check is refused at the first assertion
  whatever its entry size; one that passes it and fails the second is refused at the
  second. In both cases the state at the refusal is the state the loader was given: no
  byte has been copied. A host buffer reaches the loader as it is, the default image as
  the filesystem read it.
\<close>

theorem abi_check_then_phentsize_check_before_any_copy:
  "(EF_ARM_EABI_VERSION (e_flags (mem s) application_elf) \<noteq> EF_ARM_EABI_VER5 \<longrightarrow>
      load_and_run entry_point_fn self s application_elf =
        Inl (AssertionFailed Assert_EABI_VER5, s)) \<and>
   (EF_ARM_EABI_VERSION (e_flags (mem s) application_elf) = EF_ARM_EABI_VER5 \<and>
    e_phentsize (mem s) application_elf \<noteq> ucast sizeof_Elf32_Phdr \<longrightarrow>
      load_and_run entry_point_fn self s application_elf =
        Inl (AssertionFailed Assert_phentsize, s)) \<and>
   (param \<noteq> nullptr \<longrightarrow>
      elfloader_main ReadToMemory entry_point_fn self s param =
        load_and_run entry_point_fn self s param) \<and>
   elfloader_main ReadToMemory entry_point_fn self s nullptr =
     load_and_run entry_point_fn self
       (s\<lparr>mem := snd (ReadToMemory ''/default.elf'' (mem s))\<rparr>)
       (fst (ReadToMemory ''/default.elf'' (mem s)))"
proof -
  have abi: "EF_ARM_EABI_VERSION (e_flags (mem s) application_elf) \<noteq> EF_ARM_EABI_VER5 \<longrightarrow>
      load_and_run entry_point_fn self s application_elf =
        Inl (AssertionFailed Assert_EABI_VER5, s)"
    by (simp add: load_and_run_def)
  have phent: "EF_ARM_EABI_VERSION (e_flags (mem s) application_elf) = EF_ARM_EABI_VER5 \<and>
      e_phentsize (mem s) application_elf \<noteq> ucast sizeof_Elf32_Phdr \<longrightarrow>
      load_and_run entry_point_fn self s application_elf =
        Inl (AssertionFailed Assert_phentsize, s)"
    by (simp add: load_and_run_def)
  from abi phent elfloader_main_host elfloader_main_default show ?thesis
    by blast
qed

theorem abi_check_then_phentsize_check_before_any_copy_witness:
  "ex_image \<noteq> nullptr \<and>
   EF_ARM_EABI_VERSION (e_flags (mem ex_bad_abi_state) ex_image) \<noteq> EF_ARM_EABI_VER5 \<and>
   e_phentsize (mem ex_bad_abi_state) ex_image \<noteq> ucast sizeof_Elf32_Phdr \<and>
   elfloader_main ex_ReadToMemory ex_returns (LoaderTask 0) ex_bad_abi_state ex_image =
     Inl (AssertionFailed Assert_EABI_VER5, ex_bad_abi_state) \<and>
   EF_ARM_EABI_VERSION (e_flags (mem ex_bad_phentsize_state) ex_image) = EF_ARM_EABI_VER5 \<and>
   e_phentsize (mem ex_bad_phentsize_state) ex_image \<noteq> ucast sizeof_Elf32_Phdr \<and>
   elfloader_main ex_ReadToMemory ex_returns (LoaderTask 0) ex_bad_phentsize_state ex_image =
     Inl (AssertionFailed Assert_phentsize, ex_bad_phentsize_state)"
proof -
  have p: "ex_image \<noteq> nullptr" by (simp add: nullptr_def)
  have a: "EF_ARM_EABI_VERSION (e_flags (mem ex_bad_abi_state) ex_image) \<noteq> EF_ARM_EABI_VER5"
    "e_phentsize (mem ex_bad_abi_state) ex_image \<noteq> ucast sizeof_Elf32_Phdr"
    by (simp_all add: ex_bad_abi_state_def boot_def ex_bad_abi_memory_header
        EF_ARM_EABI_VERSION_def EF_ARM_EABI_VER5_def sizeof_Elf32_Phdr_def)
  have b: "EF_ARM_EABI_VERSION (e_flags (mem ex_bad_phentsize_state) ex_image) = EF_ARM_EABI_VER5"
    "e_phentsize (mem ex_bad_phentsize_state) ex_image \<noteq> ucast sizeof_Elf32_Phdr"
    by (simp_all add: ex_bad_phentsize_state_def boot_def ex_bad_phentsize_memory_header
        EF_ARM_EABI_VERSION_def EF_ARM_EABI_VER5_def sizeof_Elf32_Phdr_def)
  from abi_check_then_phentsize_check_before_any_copy
         [of ex_bad_abi_state ex_image ex_returns "LoaderTask 0" ex_image ex_ReadToMemory] p a
  have ra: "elfloader_main ex_ReadToMemory ex_returns (LoaderTask 0) ex_bad_abi_state ex_image =
      Inl (AssertionFailed Assert_EABI_VER5, ex_bad_abi_state)"
    by simp
  from abi_check_then_phentsize_check_before_any_copy
         [of ex_bad_phentsize_state ex_image ex_returns "LoaderTask 0" ex_image ex_ReadToMemory]
       p b
  have rb: "elfloader_main ex_ReadToMemory ex_returns (LoaderTask 0) ex_bad_phentsize_state
        ex_image = Inl (AssertionFailed Assert_phentsize, ex_bad_phentsize_state)"
    by simp
  from p a b ra rb show ?thesis by blast
qed

subsection \<open>The segment copy\<close>

lemma apart_disjoint:
  assumes "apart a n b k" and "in_range x a n"
  shows "\<not> in_range x b k"
proof
  assume xb: "in_range x b k"
  from assms(2) have n0: "n \<noteq> 0" by (auto simp: in_range_def)
  from xb have k0: "k \<noteq> 0" by (auto simp: in_range_def)
  from assms(1) n0 k0 have far: "n \<le> b - a" "k \<le> a - b"
    by (simp_all add: apart_def)
  let ?u = "x - a" and ?v = "x - b"
  have u: "?u < n" using assms(2) by (simp add: in_range_def)
  have v: "?v < k" using xb by (simp add: in_range_def)
  show False
  proof (cases "?v \<le> ?u")
    case True
    have le: "?u - ?v \<le> ?u" by (rule word_sub_le [OF True])
    have eq: "?u - ?v = b - a" by simp
    from le u have "b - a < n" unfolding eq by (rule le_less_trans)
    with far(1) show False by simp
  next
    case False
    then have le: "?u \<le> ?v" by simp
    have le': "?v - ?u \<le> ?v" by (rule word_sub_le [OF le])
    have eq: "?v - ?u = a - b" by simp
    from le' v have "a - b < k" unfolding eq by (rule le_less_trans)
    with far(2) show False by simp
  qed
qed

lemma read_u32_cong:
  assumes "\<And>x. in_range x a 4 \<Longrightarrow> m' x = m x"
  shows "read_u32 m' a = read_u32 m a"
proof -
  have "in_range a a 4" "in_range (a + 1) a 4" "in_range (a + 2) a 4" "in_range (a + 3) a 4"
    by (simp_all add: in_range_def)
  then show ?thesis
    by (simp add: read_u32_def assms)
qed

lemma read_u16_cong:
  assumes "\<And>x. in_range x a 2 \<Longrightarrow> m' x = m x"
  shows "read_u16 m' a = read_u16 m a"
proof -
  have "in_range a a 2" "in_range (a + 1) a 2"
    by (simp_all add: in_range_def)
  then show ?thesis
    by (simp add: read_u16_def assms)
qed

lemma phdr_offset_bound:
  fixes phnum :: "16 word" and c :: "32 word"
  assumes "i < unat phnum" and "unat c + 4 \<le> 32"
  shows "unat (32 * of_nat i + c :: 32 word) + unat (4 :: 32 word)
           \<le> unat (32 * ucast phnum :: 32 word)"
proof -
  have n: "unat phnum < 65536"
    using unsigned_less [of phnum, where ?'a = nat] by simp
  have "unat (32 * of_nat i + c :: 32 word) \<le> unat (32 * of_nat i :: 32 word) + unat c"
    unfolding unat_word_ariths(1) by (rule mod_less_eq_dividend)
  moreover have "unat (32 * of_nat i :: 32 word) \<le> 32 * i"
    by (simp add: unat_word_ariths unat_of_nat)
  moreover have "unat (32 * ucast phnum :: 32 word) = 32 * unat phnum"
    using n by (simp add: unat_word_ariths unsigned_ucast_eq take_bit_nat_eq_self)
  ultimately show ?thesis using assms by simp
qed


lemma phdr_field_in_table:
  assumes "i < unat (e_phnum m img)" and "unat c + 4 \<le> 32"
    and "in_range x (program_header m img i + c) 4"
  shows "in_range x (img + e_phoff m img) (sizeof_Elf32_Phdr * ucast (e_phnum m img))"
proof -
  have "program_header m img i + c = (img + e_phoff m img) + (32 * of_nat i + c)"
    by (simp add: program_header_def sizeof_Elf32_Phdr_def)
  with assms(3) have "in_range x ((img + e_phoff m img) + (32 * of_nat i + c)) 4"
    by simp
  from in_range_widen [OF this phdr_offset_bound [OF assms(1,2)]]
  show ?thesis by (simp add: sizeof_Elf32_Phdr_def)
qed

lemma ehdr_field_in_header:
  assumes "unat c + unat n \<le> 52" and "in_range x (img + c) n"
  shows "in_range x img sizeof_Elf32_Ehdr"
  using in_range_widen [OF assms(2), of sizeof_Elf32_Ehdr] assms(1)
  by (simp add: sizeof_Elf32_Ehdr_def)

lemma stable_ehdr:
  assumes "\<And>x. in_range x img sizeof_Elf32_Ehdr \<Longrightarrow> m' x = m x"
  shows "e_phnum m' img = e_phnum m img" and "e_phoff m' img = e_phoff m img"
    and "e_entry m' img = e_entry m img"
proof -
  show "e_phnum m' img = e_phnum m img"
    unfolding e_phnum_def
    by (rule read_u16_cong) (rule assms, erule ehdr_field_in_header [rotated], simp)
  show "e_phoff m' img = e_phoff m img"
    unfolding e_phoff_def
    by (rule read_u32_cong) (rule assms, erule ehdr_field_in_header [rotated], simp)
  show "e_entry m' img = e_entry m img"
    unfolding e_entry_def
    by (rule read_u32_cong) (rule assms, erule ehdr_field_in_header [rotated], simp)
qed

lemma stable_phdr:
  assumes hdr: "\<And>x. in_range x img sizeof_Elf32_Ehdr \<Longrightarrow> m' x = m x"
    and tab: "\<And>x. in_range x (img + e_phoff m img) (sizeof_Elf32_Phdr * ucast (e_phnum m img))
                \<Longrightarrow> m' x = m x"
    and i: "i < unat (e_phnum m img)"
  shows "program_header m' img i = program_header m img i"
    and "p_type m' (program_header m img i) = p_type m (program_header m img i)"
    and "p_offset m' (program_header m img i) = p_offset m (program_header m img i)"
    and "p_paddr m' (program_header m img i) = p_paddr m (program_header m img i)"
    and "p_filesz m' (program_header m img i) = p_filesz m (program_header m img i)"
proof -
  show "program_header m' img i = program_header m img i"
    by (simp add: program_header_def stable_ehdr(2) [OF hdr])
  have field: "read_u32 m' (program_header m img i + c) = read_u32 m (program_header m img i + c)"
    if "unat c + 4 \<le> 32" for c
    by (rule read_u32_cong) (rule tab, rule phdr_field_in_table [OF i that])
  show "p_type m' (program_header m img i) = p_type m (program_header m img i)"
    using field [of 0] by (simp add: p_type_def)
  show "p_offset m' (program_header m img i) = p_offset m (program_header m img i)"
    using field [of 4] by (simp add: p_offset_def)
  show "p_paddr m' (program_header m img i) = p_paddr m (program_header m img i)"
    using field [of 12] by (simp add: p_paddr_def)
  show "p_filesz m' (program_header m img i) = p_filesz m (program_header m img i)"
    using field [of 16] by (simp add: p_filesz_def)
qed


lemma loadable_entries_iff:
  "i \<in> set (loadable_entries m img) \<longleftrightarrow>
     i < unat (e_phnum m img) \<and> loadable m (program_header m img i)"
  by (auto simp: loadable_entries_def)

lemma dst_apart_untouched:
  assumes "\<forall>i \<in> set (loadable_entries m img). dst_apart m img i b k"
    and "in_range x b k"
  shows "untouched m img (unat (e_phnum m img)) x"
  unfolding untouched_def
proof (intro allI impI)
  fix j
  assume j: "j < unat (e_phnum m img)" and l: "loadable m (program_header m img j)"
  then have "j \<in> set (loadable_entries m img)" by (simp add: loadable_entries_iff)
  with assms(1) have "apart (p_paddr m (program_header m img j))
      (p_filesz m (program_header m img j)) b k"
    by (simp add: dst_apart_def)
  from apart_disjoint [OF this] assms(2)
  show "\<not> in_range x (p_paddr m (program_header m img j)) (p_filesz m (program_header m img j))"
    by blast
qed

lemma untouched_mono: "i \<le> n \<Longrightarrow> untouched m img n a \<Longrightarrow> untouched m img i a"
  by (simp add: untouched_def)

lemma untouched_or_last_writer:
  "untouched m img n a \<or> (\<exists>j. last_writer m img n j a)"
proof (induction n)
  case 0
  then show ?case by (simp add: untouched_def)
next
  case (Suc n)
  let ?hit = "\<lambda>l. loadable m (program_header m img l) \<and>
      in_range a (p_paddr m (program_header m img l)) (p_filesz m (program_header m img l))"
  show ?case
  proof (cases "?hit n")
    case True
    then have "last_writer m img (Suc n) n a"
      by (simp add: last_writer_def)
    then show ?thesis by blast
  next
    case False
    from Suc.IH show ?thesis
    proof
      assume "untouched m img n a"
      with False have "untouched m img (Suc n) a"
        by (auto simp: untouched_def less_Suc_eq)
      then show ?thesis by blast
    next
      assume "\<exists>j. last_writer m img n j a"
      then obtain j where "last_writer m img n j a" by blast
      with False have "last_writer m img (Suc n) j a"
        by (auto simp: last_writer_def less_Suc_eq)
      then show ?thesis by blast
    qed
  qed
qed

lemma load_step_stable:
  assumes tab: "table_apart m img"
    and frame: "\<And>x. untouched m img i x \<Longrightarrow> m' x = m x"
    and i: "i \<le> unat (e_phnum m img)"
  shows "e_phnum m' img = e_phnum m img" and "e_entry m' img = e_entry m img"
    and "i < unat (e_phnum m img) \<Longrightarrow>
         load_step m' img i =
           (if loadable m (program_header m img i) then copy_entry m img m' i else m')"
proof -
  let ?n = "unat (e_phnum m img)"
  have keep: "m' x = m x" if "untouched m img ?n x" for x
    using frame [OF untouched_mono [OF i that]] .
  have hdr: "m' x = m x" if "in_range x img sizeof_Elf32_Ehdr" for x
    using tab that
    by (intro keep dst_apart_untouched [where b = img and k = sizeof_Elf32_Ehdr])
       (auto simp: table_apart_def)
  have tabl: "m' x = m x"
    if "in_range x (img + e_phoff m img) (sizeof_Elf32_Phdr * ucast (e_phnum m img))" for x
    using tab that
    by (intro keep dst_apart_untouched [where b = "img + e_phoff m img"
          and k = "sizeof_Elf32_Phdr * ucast (e_phnum m img)"])
       (auto simp: table_apart_def)
  from stable_ehdr [OF hdr]
  show "e_phnum m' img = e_phnum m img" and "e_entry m' img = e_entry m img"
    by simp_all
  show "load_step m' img i =
      (if loadable m (program_header m img i) then copy_entry m img m' i else m')"
    if "i < ?n"
    by (simp add: load_step_def Let_def loadable_def copy_entry_def
        stable_phdr [OF hdr tabl that])
qed

lemma load_segments_invariant:
  assumes step: "\<And>i m'. I i m' \<Longrightarrow> i < unat (e_phnum m img) \<Longrightarrow> I (Suc i) (load_step m' img i)"
    and count: "\<And>i m'. I i m' \<Longrightarrow> i \<le> unat (e_phnum m img) \<Longrightarrow>
                  e_phnum m' img = e_phnum m img"
  shows "I i m' \<Longrightarrow> i \<le> unat (e_phnum m img) \<Longrightarrow>
         I (unat (e_phnum m img)) (load_segments m' img i)"
proof (induction "unat (e_phnum m img) - i" arbitrary: i m')
  case 0
  then have n: "i = unat (e_phnum m img)" by simp
  have "e_phnum m' img = e_phnum m img"
    using count [OF "0.prems"] .
  with n have "\<not> i < unat (e_phnum m' img)" by simp
  then have "load_segments m' img i = m'"
    by (subst load_segments.simps) simp
  with "0.prems"(1) n show ?case by simp
next
  case (Suc k)
  then have i: "i < unat (e_phnum m img)" by simp
  have ph: "e_phnum m' img = e_phnum m img"
    using count [OF Suc.prems] .
  have unroll: "load_segments m' img i = load_segments (load_step m' img i) img (Suc i)"
    using i ph by (simp add: load_segments.simps [of m' img i])
  have "k = unat (e_phnum m img) - Suc i" using Suc.hyps(2) by simp
  from Suc.hyps(1) [OF this step [OF Suc.prems(1) i]] i
  show ?case by (simp add: unroll)
qed

lemma loaded_upto_start: "loaded_upto m img 0 m"
  by (simp add: loaded_upto_def)

lemma loaded_upto_step:
  assumes tab: "table_apart m img"
    and inv: "loaded_upto m img i m'"
    and i: "i < unat (e_phnum m img)"
  shows "loaded_upto m img (Suc i) (load_step m' img i)"
proof -
  let ?L = "\<lambda>k. filter (\<lambda>j. loadable m (program_header m img j)) [0..<k]"
  from inv have eq: "m' = foldl (copy_entry m img) m (?L i)"
    and fr: "\<forall>a. untouched m img i a \<longrightarrow> m' a = m a"
    unfolding loaded_upto_def by blast+
  have frame: "m' x = m x" if "untouched m img i x" for x
    using fr that by blast
  have step: "load_step m' img i =
      (if loadable m (program_header m img i) then copy_entry m img m' i else m')"
    using load_step_stable(3) [OF tab frame _ i] i by simp
  have "foldl (copy_entry m img) m (?L (Suc i)) =
      (if loadable m (program_header m img i)
       then copy_entry m img (foldl (copy_entry m img) m (?L i)) i
       else foldl (copy_entry m img) m (?L i))"
    by simp
  then have fold: "load_step m' img i = foldl (copy_entry m img) m (?L (Suc i))"
    unfolding step eq [symmetric] by (rule sym)
  have rest: "load_step m' img i a = m a" if u: "untouched m img (Suc i) a" for a
  proof -
    from u have below: "untouched m img i a" by (simp add: untouched_def)
    show ?thesis
    proof (cases "loadable m (program_header m img i)")
      case True
      with u have "\<not> in_range a (p_paddr m (program_header m img i))
          (p_filesz m (program_header m img i))"
        by (simp add: untouched_def)
      with True show ?thesis
        by (simp add: step copy_entry_def memcpy_outside frame [OF below])
    next
      case False
      then show ?thesis by (simp add: step frame [OF below])
    qed
  qed
  show ?thesis
    unfolding loaded_upto_def using fold rest by blast
qed

lemma loaded_upto_count:
  assumes "table_apart m img" and "loaded_upto m img i m'" and "i \<le> unat (e_phnum m img)"
  shows "e_phnum m' img = e_phnum m img"
proof -
  from assms(2) have "\<And>x. untouched m img i x \<Longrightarrow> m' x = m x"
    unfolding loaded_upto_def by blast
  from load_step_stable(1) [OF assms(1) this assms(3)] show ?thesis .
qed

lemma copied_upto_start: "copied_upto m img 0 m"
  by (simp add: copied_upto_def last_writer_def)

lemma copied_upto_step:
  assumes sep: "segments_apart m img"
    and inv: "copied_upto m img i m'"
    and i: "i < unat (e_phnum m img)"
  shows "copied_upto m img (Suc i) (load_step m' img i)"
proof -
  let ?n = "unat (e_phnum m img)"
  let ?ph = "\<lambda>j. program_header m img j"
  let ?dst = "\<lambda>j. p_paddr m (?ph j)" and ?sz = "\<lambda>j. p_filesz m (?ph j)"
  let ?src = "\<lambda>j. img + p_offset m (?ph j)"
  from sep have tab: "table_apart m img"
    and srcs: "\<forall>e \<in> set (loadable_entries m img). \<forall>j \<in> set (loadable_entries m img).
        dst_apart m img e (?src j) (?sz j)"
    by (simp_all add: segments_apart_def)
  have before: "m' x = m x" if "untouched m img i x" for x
    using inv that by (simp add: copied_upto_def)
  have keep: "m' x = m x" if "untouched m img ?n x" for x
    using before untouched_mono [OF _ that, of i] i by simp
  have src: "m' x = m x" if "j \<in> set (loadable_entries m img)" "in_range x (?src j) (?sz j)" for x j
    using srcs that
    by (intro keep dst_apart_untouched [where b = "?src j" and k = "?sz j"]) auto
  have step: "load_step m' img i =
      (if loadable m (?ph i) then memcpy m' (?dst i) (?src i) (?sz i) else m')"
    using load_step_stable(3) [OF tab before _ i] i by (simp add: copy_entry_def)
  show ?thesis
  proof (cases "loadable m (?ph i)")
    case False
    then have same: "load_step m' img i = m'" by (simp add: step)
    have "untouched m img i a" if "untouched m img (Suc i) a" for a
      using that by (simp add: untouched_def)
    moreover have "last_writer m img i j a" if "last_writer m img (Suc i) j a" for j a
    proof -
      from that False have "j \<noteq> i" by (auto simp: last_writer_def)
      with that show ?thesis by (auto simp: last_writer_def less_Suc_eq)
    qed
    ultimately show ?thesis
      using inv unfolding same copied_upto_def by blast
  next
    case True
    then have new: "load_step m' img i = memcpy m' (?dst i) (?src i) (?sz i)"
      by (simp add: step)
    from True i have ii: "i \<in> set (loadable_entries m img)"
      by (simp add: loadable_entries_iff)
    have frame: "load_step m' img i a = m a" if u: "untouched m img (Suc i) a" for a
    proof -
      from u True have "\<not> in_range a (?dst i) (?sz i)" by (simp add: untouched_def)
      then have "load_step m' img i a = m' a" by (simp add: new memcpy_outside)
      moreover from u have "untouched m img i a" by (simp add: untouched_def)
      ultimately show ?thesis using inv by (simp add: copied_upto_def)
    qed
    have copied: "load_step m' img i a = m (?src j + (a - ?dst j))"
      if w: "last_writer m img (Suc i) j a" for j a
    proof (cases "j = i")
      case True
      from w True have a: "in_range a (?dst i) (?sz i)" by (simp add: last_writer_def)
      then have "in_range (?src i + (a - ?dst i)) (?src i) (?sz i)"
        by (simp add: in_range_def)
      from src [OF ii this] a True show ?thesis
        by (simp add: new memcpy_inside)
    next
      case False
      with w have ji: "j < i" by (simp add: last_writer_def)
      from w ji True have "\<not> in_range a (?dst i) (?sz i)"
        by (auto simp: last_writer_def)
      then have "load_step m' img i a = m' a" by (simp add: new memcpy_outside)
      moreover from w ji have "last_writer m img i j a"
        by (auto simp: last_writer_def)
      ultimately show ?thesis using inv by (simp add: copied_upto_def)
    qed
    from frame copied show ?thesis
      unfolding copied_upto_def by blast
  qed
qed

lemma copied_upto_count:
  assumes "segments_apart m img" and "copied_upto m img i m'" and "i \<le> unat (e_phnum m img)"
  shows "e_phnum m' img = e_phnum m img"
proof -
  from assms(1) have tab: "table_apart m img" by (simp add: segments_apart_def)
  from assms(2) have "\<And>x. untouched m img i x \<Longrightarrow> m' x = m x"
    unfolding copied_upto_def by blast
  from load_step_stable(1) [OF tab this assms(3)] show ?thesis .
qed

lemma ex_shrinking_memory_header:
  "e_flags ex_shrinking_memory ex_image = 0x05000000"
  "e_phentsize ex_shrinking_memory ex_image = 32"
  "e_phnum ex_shrinking_memory ex_image = 2"
  "e_phoff ex_shrinking_memory ex_image = 52"
  by (simp_all add: ex_shrinking_memory_def ex_shrinking_bytes_def zero_memory_def
      e_flags_def e_phentsize_def e_phnum_def e_phoff_def read_u32_def read_u16_def)

lemma ex_shrinking_memory_entries:
  "p_type ex_shrinking_memory 0x80001034 = 1"
  "p_offset ex_shrinking_memory 0x80001034 = 116"
  "p_paddr ex_shrinking_memory 0x80001034 = 0x8000102C"
  "p_filesz ex_shrinking_memory 0x80001034 = 2"
  "p_type ex_shrinking_memory 0x80001054 = 1"
  "p_offset ex_shrinking_memory 0x80001054 = 118"
  "p_paddr ex_shrinking_memory 0x80001054 = 0x20000000"
  "p_filesz ex_shrinking_memory 0x80001054 = 4"
  by (simp_all add: ex_shrinking_memory_def ex_shrinking_bytes_def zero_memory_def
      p_type_def p_offset_def p_paddr_def p_filesz_def read_u32_def)

lemma ex_shrinking_memory_bytes:
  "ex_shrinking_memory 0x80001074 = 1" "ex_shrinking_memory 0x80001075 = 0"
  "ex_shrinking_memory 0x80001076 = 0xDE" "ex_shrinking_memory 0x20000000 = 0"
  by (simp_all add: ex_shrinking_memory_def ex_shrinking_bytes_def zero_memory_def)

lemma ex_shrinking_load:
  "load_segments ex_shrinking_memory ex_image 0 =
     memcpy ex_shrinking_memory 0x8000102C 0x80001074 2"
proof -
  let ?m1 = "memcpy ex_shrinking_memory 0x8000102C 0x80001074 2"
  have ph: "program_header ex_shrinking_memory ex_image 0 = 0x80001034"
    by (simp add: program_header_def ex_shrinking_memory_header sizeof_Elf32_Phdr_def)
  have step: "load_step ex_shrinking_memory ex_image 0 = ?m1"
    by (simp add: load_step_def ph ex_shrinking_memory_entries PT_LOAD_def)
  have "e_phnum ?m1 ex_image = 1"
    by (simp add: e_phnum_def read_u16_def memcpy_def in_range_def ex_shrinking_memory_bytes)
  then have stop: "load_segments ?m1 ex_image (Suc 0) = ?m1"
    by (subst load_segments.simps) simp
  show ?thesis
    by (subst load_segments.simps) (simp add: ex_shrinking_memory_header step stop)
qed

text \<open>
  An accepted image one of whose loadable entries is never copied. The image passes both
  checks and its table has two entries, both of type \<open>PT_LOAD\<close> with a file size that is
  not zero. The copy of entry 0 lands on \<open>e_phnum\<close> and makes it 1, so the loop ends
  before entry 1: the address 0x20000000, where entry 1 places the file byte 0xDE, holds
  0 after the load as it did before.
\<close>

theorem loadable_entry_never_copied_counterexample:
  "EF_ARM_EABI_VERSION (e_flags ex_shrinking_memory ex_image) = EF_ARM_EABI_VER5 \<and>
   e_phentsize ex_shrinking_memory ex_image = ucast sizeof_Elf32_Phdr \<and>
   e_phnum ex_shrinking_memory ex_image = 2 \<and>
   loadable ex_shrinking_memory (program_header ex_shrinking_memory ex_image 1) \<and>
   p_paddr ex_shrinking_memory (program_header ex_shrinking_memory ex_image 1) = 0x20000000 \<and>
   ex_shrinking_memory
     (ex_image + p_offset ex_shrinking_memory (program_header ex_shrinking_memory ex_image 1))
     = 0xDE \<and>
   e_phnum (load_segments ex_shrinking_memory ex_image 0) ex_image = 1 \<and>
   load_segments ex_shrinking_memory ex_image 0 0x20000000 = 0"
proof -
  have ph: "program_header ex_shrinking_memory ex_image 1 = 0x80001054"
    by (simp add: program_header_def ex_shrinking_memory_header sizeof_Elf32_Phdr_def)
  have checks: "EF_ARM_EABI_VERSION (e_flags ex_shrinking_memory ex_image) = EF_ARM_EABI_VER5"
    "e_phentsize ex_shrinking_memory ex_image = ucast sizeof_Elf32_Phdr"
    by (simp_all add: ex_shrinking_memory_header EF_ARM_EABI_VERSION_def EF_ARM_EABI_VER5_def
        sizeof_Elf32_Phdr_def)
  have entry: "loadable ex_shrinking_memory 0x80001054"
    "p_paddr ex_shrinking_memory 0x80001054 = 0x20000000"
    "ex_shrinking_memory (ex_image + p_offset ex_shrinking_memory 0x80001054) = 0xDE"
    by (simp_all add: loadable_def PT_LOAD_def ex_shrinking_memory_entries
        ex_shrinking_memory_bytes)
  have after: "e_phnum (load_segments ex_shrinking_memory ex_image 0) ex_image = 1"
    "load_segments ex_shrinking_memory ex_image 0 0x20000000 = 0"
    by (simp_all add: ex_shrinking_load e_phnum_def read_u16_def memcpy_def in_range_def
        ex_shrinking_memory_bytes)
  from checks entry after show ?thesis
    by (simp only: ph ex_shrinking_memory_header)
qed

text \<open>
  C2, as the code has it. For an image in which no destination range of a loadable entry
  touches the ELF header, the program header table or that entry's own file bytes, the
  loop visits the entries 0 up to \<open>e_phnum\<close>, passes over every entry whose type is not
  \<open>PT_LOAD\<close> or whose file size is zero, and copies each other entry's \<open>p_filesz\<close> bytes
  from \<open>p_offset\<close> in the buffer to \<open>p_paddr\<close>, in the order of the table: the memory
  after the loop is the memory before it with exactly these copies made. Every address
  outside the destination ranges holds what it held before, so nothing is zero-filled
  and nothing else is written, and the entry point read after the loop is the one in the
  header. If moreover no destination range touches the file bytes of any loadable entry,
  every address in a destination range holds after the loop the file byte of the last
  loadable entry whose range covers it, and each address is of one kind or the other.
\<close>

theorem load_segments_copies_loadable_segments:
  assumes "table_apart m application_elf"
  shows "load_segments m application_elf 0 =
           foldl (copy_entry m application_elf) m (loadable_entries m application_elf) \<and>
         (\<forall>a. untouched m application_elf (unat (e_phnum m application_elf)) a \<longrightarrow>
            load_segments m application_elf 0 a = m a) \<and>
         e_entry (load_segments m application_elf 0) application_elf =
           e_entry m application_elf \<and>
         (segments_apart m application_elf \<longrightarrow>
            (\<forall>j a. last_writer m application_elf (unat (e_phnum m application_elf)) j a \<longrightarrow>
               load_segments m application_elf 0 a =
                 m (application_elf + p_offset m (program_header m application_elf j) +
                    (a - p_paddr m (program_header m application_elf j)))) \<and>
            (\<forall>a. untouched m application_elf (unat (e_phnum m application_elf)) a \<or>
               (\<exists>j. last_writer m application_elf (unat (e_phnum m application_elf)) j a)))"
proof -
  let ?n = "unat (e_phnum m application_elf)"
  let ?m' = "load_segments m application_elf 0"
  have fin: "loaded_upto m application_elf ?n ?m'"
  proof (rule load_segments_invariant [where I = "loaded_upto m application_elf"])
    show "loaded_upto m application_elf 0 m" by (rule loaded_upto_start)
    show "0 \<le> ?n" by simp
  next
    fix i m'
    assume "loaded_upto m application_elf i m'" and "i < ?n"
    then show "loaded_upto m application_elf (Suc i) (load_step m' application_elf i)"
      by (rule loaded_upto_step [OF assms])
  next
    fix i m'
    assume "loaded_upto m application_elf i m'" and "i \<le> ?n"
    then show "e_phnum m' application_elf = e_phnum m application_elf"
      by (rule loaded_upto_count [OF assms])
  qed
  then have copies: "?m' = foldl (copy_entry m application_elf) m
      (loadable_entries m application_elf)"
    and fr: "\<forall>a. untouched m application_elf ?n a \<longrightarrow> ?m' a = m a"
    unfolding loaded_upto_def loadable_entries_def by blast+
  have frame: "\<forall>a. untouched m application_elf ?n a \<longrightarrow> ?m' a = m a"
    by (rule fr)
  have "\<And>x. untouched m application_elf ?n x \<Longrightarrow> ?m' x = m x"
    using fr by blast
  from load_step_stable(2) [OF assms this le_refl]
  have entry: "e_entry ?m' application_elf = e_entry m application_elf" .
  have placed: "\<forall>j a. last_writer m application_elf ?n j a \<longrightarrow>
      ?m' a = m (application_elf + p_offset m (program_header m application_elf j) +
                 (a - p_paddr m (program_header m application_elf j)))"
    if sep: "segments_apart m application_elf"
  proof -
    have "copied_upto m application_elf ?n ?m'"
    proof (rule load_segments_invariant [where I = "copied_upto m application_elf"])
      show "copied_upto m application_elf 0 m" by (rule copied_upto_start)
      show "0 \<le> ?n" by simp
    next
      fix i m'
      assume "copied_upto m application_elf i m'" and "i < ?n"
      then show "copied_upto m application_elf (Suc i) (load_step m' application_elf i)"
        by (rule copied_upto_step [OF sep])
    next
      fix i m'
      assume "copied_upto m application_elf i m'" and "i \<le> ?n"
      then show "e_phnum m' application_elf = e_phnum m application_elf"
        by (rule copied_upto_count [OF sep])
    qed
    then show ?thesis unfolding copied_upto_def by blast
  qed
  from copies frame entry placed untouched_or_last_writer show ?thesis by blast
qed

theorem load_segments_copies_loadable_segments_witness:
  "table_apart ex_elf_memory ex_image \<and> segments_apart ex_elf_memory ex_image \<and>
   loadable_entries ex_elf_memory ex_image = [0] \<and>
   load_segments ex_elf_memory ex_image 0 = copy_entry ex_elf_memory ex_image ex_elf_memory 0 \<and>
   last_writer ex_elf_memory ex_image (unat (e_phnum ex_elf_memory ex_image)) 0 0x20000002 \<and>
   load_segments ex_elf_memory ex_image 0 0x20000002 = 0xBE \<and>
   untouched ex_elf_memory ex_image (unat (e_phnum ex_elf_memory ex_image)) 0x20000004 \<and>
   load_segments ex_elf_memory ex_image 0 0x20000004 = 0 \<and>
   e_entry (load_segments ex_elf_memory ex_image 0) ex_image = 0x20000001"
proof -
  let ?m' = "load_segments ex_elf_memory ex_image 0"
  let ?n = "unat (e_phnum ex_elf_memory ex_image)"
  have tab: "table_apart ex_elf_memory ex_image"
    using ex_segments_apart by (simp add: segments_apart_def)
  have w: "last_writer ex_elf_memory ex_image ?n 0 0x20000002"
    by (simp add: last_writer_def loadable_def PT_LOAD_def in_range_def ex_elf_memory_header
        ex_elf_memory_phdr ex_elf_memory_segment)
  have u: "untouched ex_elf_memory ex_image ?n 0x20000004"
    by (simp add: untouched_def in_range_def ex_elf_memory_header ex_elf_memory_phdr
        ex_elf_memory_segment)
  from load_segments_copies_loadable_segments [OF tab] ex_segments_apart
  have copies: "?m' = foldl (copy_entry ex_elf_memory ex_image) ex_elf_memory
        (loadable_entries ex_elf_memory ex_image)"
    and placed: "\<And>j a. last_writer ex_elf_memory ex_image ?n j a \<Longrightarrow>
        ?m' a = ex_elf_memory
          (ex_image + p_offset ex_elf_memory (program_header ex_elf_memory ex_image j) +
           (a - p_paddr ex_elf_memory (program_header ex_elf_memory ex_image j)))"
    and frame: "\<And>a. untouched ex_elf_memory ex_image ?n a \<Longrightarrow> ?m' a = ex_elf_memory a"
    and entry: "e_entry ?m' ex_image = e_entry ex_elf_memory ex_image"
    by blast+
  have w0: "?m' = copy_entry ex_elf_memory ex_image ex_elf_memory 0"
    using copies by (simp add: ex_loadable_entries)
  have w1: "?m' 0x20000002 = 0xBE"
    using placed [OF w]
    by (simp add: ex_elf_memory_phdr ex_elf_memory_segment ex_elf_memory_payload)
  have w2: "?m' 0x20000004 = 0"
    using frame [OF u] by (simp add: ex_elf_memory_payload)
  have w3: "e_entry ?m' ex_image = 0x20000001"
    using entry by (simp add: ex_elf_memory_header)
  from tab ex_segments_apart ex_loadable_entries w0 w u w1 w2 w3 show ?thesis by blast
qed

subsection \<open>The hand-off\<close>

lemma load_and_run_suspended:
  "set (suspended s) \<subseteq> set (suspended (final_state (load_and_run entry_point_fn self s a)))"
  by (auto simp: load_and_run_def final_state_def Let_def split: option.splits)

lemma load_and_run_loader_tasks:
  "loader_tasks (final_state (load_and_run entry_point_fn self s a)) = loader_tasks s"
  by (auto simp: load_and_run_def final_state_def Let_def split: option.splits)

lemma program_step_suspended:
  "set (suspended s) \<subseteq>
   set (suspended (final_state (program_step ReadToMemory entry_point_fn s st)))"
proof (cases st)
  case (Packet buffer bs p)
  then show ?thesis
    by (auto simp: program_step_def elfloader_recv_def deliver_def final_state_def
        split: option.splits ElfloaderCommand.splits)
next
  case TimerExpired
  then show ?thesis
    by (auto simp: program_step_def usb_timer_callback_def final_state_def)
next
  case (RunLoader k)
  show ?thesis
  proof (cases "k < length (loader_tasks s)")
    case True
    let ?m0 = "snd (if loader_tasks s ! k = nullptr
                    then ReadToMemory ''/default.elf'' (mem s) else (loader_tasks s ! k, mem s))"
    let ?a = "fst (if loader_tasks s ! k = nullptr
                   then ReadToMemory ''/default.elf'' (mem s) else (loader_tasks s ! k, mem s))"
    have "program_step ReadToMemory entry_point_fn s st =
        load_and_run entry_point_fn (LoaderTask k) (s\<lparr>mem := ?m0\<rparr>) ?a"
      using True by (simp add: program_step_def RunLoader elfloader_main_def split_beta)
    with load_and_run_suspended [of "s\<lparr>mem := ?m0\<rparr>" entry_point_fn "LoaderTask k" ?a]
    show ?thesis by simp
  next
    case False
    then show ?thesis by (simp add: program_step_def RunLoader final_state_def)
  qed
qed

lemma program_step_loader_tasks:
  "length (loader_tasks s) \<le>
   length (loader_tasks (final_state (program_step ReadToMemory entry_point_fn s st)))"
proof (cases st)
  case (Packet buffer bs p)
  then show ?thesis
    by (auto simp: program_step_def elfloader_recv_def deliver_def final_state_def
        split: option.splits ElfloaderCommand.splits)
next
  case TimerExpired
  then show ?thesis
    by (auto simp: program_step_def usb_timer_callback_def final_state_def)
next
  case (RunLoader k)
  show ?thesis
  proof (cases "k < length (loader_tasks s)")
    case True
    let ?m0 = "snd (if loader_tasks s ! k = nullptr
                    then ReadToMemory ''/default.elf'' (mem s) else (loader_tasks s ! k, mem s))"
    let ?a = "fst (if loader_tasks s ! k = nullptr
                   then ReadToMemory ''/default.elf'' (mem s) else (loader_tasks s ! k, mem s))"
    have "program_step ReadToMemory entry_point_fn s st =
        load_and_run entry_point_fn (LoaderTask k) (s\<lparr>mem := ?m0\<rparr>) ?a"
      using True by (simp add: program_step_def RunLoader elfloader_main_def split_beta)
    with load_and_run_loader_tasks [of entry_point_fn "LoaderTask k" "s\<lparr>mem := ?m0\<rparr>" ?a]
    show ?thesis by simp
  next
    case False
    then show ?thesis by (simp add: program_step_def RunLoader final_state_def)
  qed
qed

lemma run_steps_parked:
  "t \<in> set (suspended s) \<Longrightarrow> n \<le> length (loader_tasks s) \<Longrightarrow>
   t \<in> set (suspended (final_state (run_steps ReadToMemory entry_point_fn s sts))) \<and>
   n \<le> length (loader_tasks (final_state (run_steps ReadToMemory entry_point_fn s sts)))"
proof (induction sts arbitrary: s)
  case Nil
  then show ?case by (simp add: final_state_def)
next
  case (Cons st sts)
  let ?r = "program_step ReadToMemory entry_point_fn s st"
  have t: "t \<in> set (suspended (final_state ?r))"
    using program_step_suspended [of s ReadToMemory entry_point_fn st] Cons.prems(1) by blast
  have n: "n \<le> length (loader_tasks (final_state ?r))"
    using program_step_loader_tasks [of s ReadToMemory entry_point_fn st] Cons.prems(2)
    by simp
  show ?case
  proof (cases ?r)
    case (Inl e)
    with t n show ?thesis by simp
  next
    case (Inr s')
    with t n have "t \<in> set (suspended s')" "n \<le> length (loader_tasks s')"
      by (simp_all add: final_state_def)
    from Cons.IH [OF this] show ?thesis by (simp add: Inr)
  qed
qed

text \<open>
  C9. For an image that passes both checks, the loader calls the entry point read from
  the header after the segments are copied, with no argument. If the call does not come
  back, the program ends there with the image in control. If it comes back, the task
  calls \<open>vTaskSuspend\<close> on itself: it is on the list of suspended tasks, and it stays
  there and stays a task through every later step of the program, for the file has no
  call that resumes or deletes a task.
\<close>

theorem entry_point_called_then_task_parked:
  assumes "EF_ARM_EABI_VERSION (e_flags (mem s) application_elf) = EF_ARM_EABI_VER5"
    and "e_phentsize (mem s) application_elf = ucast sizeof_Elf32_Phdr"
    and "m1 = load_segments (mem s) application_elf 0"
  shows "(entry_point_fn (e_entry m1 application_elf) m1 = None \<longrightarrow>
            load_and_run entry_point_fn self s application_elf =
              Inl (EnteredImage (e_entry m1 application_elf), s\<lparr>mem := m1\<rparr>)) \<and>
         (\<forall>m2. entry_point_fn (e_entry m1 application_elf) m1 = Some m2 \<longrightarrow>
            load_and_run entry_point_fn self s application_elf =
              Inr (s\<lparr>mem := m2, suspended := suspended s @ [self]\<rparr>) \<and>
            (\<forall>ReadToMemory entry_point_fn' sts.
               self \<in> set (suspended (final_state
                 (run_steps ReadToMemory entry_point_fn'
                    (s\<lparr>mem := m2, suspended := suspended s @ [self]\<rparr>) sts))) \<and>
               length (loader_tasks s) \<le> length (loader_tasks (final_state
                 (run_steps ReadToMemory entry_point_fn'
                    (s\<lparr>mem := m2, suspended := suspended s @ [self]\<rparr>) sts)))))"
proof -
  have enter: "entry_point_fn (e_entry m1 application_elf) m1 = None \<longrightarrow>
      load_and_run entry_point_fn self s application_elf =
        Inl (EnteredImage (e_entry m1 application_elf), s\<lparr>mem := m1\<rparr>)"
    using assms by (simp add: load_and_run_def Let_def)
  have returned: "\<forall>m2. entry_point_fn (e_entry m1 application_elf) m1 = Some m2 \<longrightarrow>
      load_and_run entry_point_fn self s application_elf =
        Inr (s\<lparr>mem := m2, suspended := suspended s @ [self]\<rparr>)"
    using assms by (simp add: load_and_run_def Let_def)
  have parked: "\<forall>m2 ReadToMemory entry_point_fn' sts.
      self \<in> set (suspended (final_state
        (run_steps ReadToMemory entry_point_fn'
           (s\<lparr>mem := m2, suspended := suspended s @ [self]\<rparr>) sts))) \<and>
      length (loader_tasks s) \<le> length (loader_tasks (final_state
        (run_steps ReadToMemory entry_point_fn'
           (s\<lparr>mem := m2, suspended := suspended s @ [self]\<rparr>) sts)))"
  proof (intro allI)
    fix m2 ReadToMemory entry_point_fn' sts
    let ?s' = "s\<lparr>mem := m2, suspended := suspended s @ [self]\<rparr>"
    have "self \<in> set (suspended ?s')" "length (loader_tasks s) \<le> length (loader_tasks ?s')"
      by simp_all
    from run_steps_parked [OF this]
    show "self \<in> set (suspended (final_state (run_steps ReadToMemory entry_point_fn' ?s' sts))) \<and>
      length (loader_tasks s) \<le>
        length (loader_tasks (final_state (run_steps ReadToMemory entry_point_fn' ?s' sts)))"
      by blast
  qed
  from enter returned parked show ?thesis by blast
qed

theorem entry_point_called_then_task_parked_witness:
  "EF_ARM_EABI_VERSION (e_flags (mem ex_loaded_state) ex_image) = EF_ARM_EABI_VER5 \<and>
   e_phentsize (mem ex_loaded_state) ex_image = ucast sizeof_Elf32_Phdr \<and>
   load_and_run ex_never_returns (LoaderTask 0) ex_loaded_state ex_image =
     Inl (EnteredImage 0x20000001,
          ex_loaded_state\<lparr>mem := memcpy ex_elf_memory 0x20000000 0x80001054 4\<rparr>) \<and>
   load_and_run ex_returns (LoaderTask 0) ex_loaded_state ex_image =
     Inr (ex_loaded_state\<lparr>mem := memcpy ex_elf_memory 0x20000000 0x80001054 4,
                           suspended := [LoaderTask 0]\<rparr>) \<and>
   LoaderTask 0 \<in> set (suspended (final_state
     (run_steps ex_ReadToMemory ex_returns
        (ex_loaded_state\<lparr>mem := memcpy ex_elf_memory 0x20000000 0x80001054 4,
                          suspended := [LoaderTask 0]\<rparr>)
        [TimerExpired, Packet 0x2000 [2] nullptr])))"
proof -
  have m: "mem ex_loaded_state = ex_elf_memory" and sus: "suspended ex_loaded_state = []"
    by (simp_all add: ex_loaded_state_def boot_def)
  have abi: "EF_ARM_EABI_VERSION (e_flags (mem ex_loaded_state) ex_image) = EF_ARM_EABI_VER5"
    by (simp add: m ex_elf_memory_header EF_ARM_EABI_VERSION_def EF_ARM_EABI_VER5_def)
  have phent: "e_phentsize (mem ex_loaded_state) ex_image = ucast sizeof_Elf32_Phdr"
    by (simp add: m ex_elf_memory_header sizeof_Elf32_Phdr_def)
  have m1: "memcpy ex_elf_memory 0x20000000 0x80001054 4 =
      load_segments (mem ex_loaded_state) ex_image 0"
    by (simp add: m ex_load_segments)
  note never = entry_point_called_then_task_parked
      [OF abi phent m1, of ex_never_returns "LoaderTask 0"]
  note comes_back = entry_point_called_then_task_parked
      [OF abi phent m1, of ex_returns "LoaderTask 0"]
  have a: "load_and_run ex_never_returns (LoaderTask 0) ex_loaded_state ex_image =
      Inl (EnteredImage 0x20000001,
           ex_loaded_state\<lparr>mem := memcpy ex_elf_memory 0x20000000 0x80001054 4\<rparr>)"
    using never by (simp add: ex_never_returns_def ex_loaded_entry)
  have b: "load_and_run ex_returns (LoaderTask 0) ex_loaded_state ex_image =
      Inr (ex_loaded_state\<lparr>mem := memcpy ex_elf_memory 0x20000000 0x80001054 4,
                            suspended := [LoaderTask 0]\<rparr>)"
    using comes_back by (auto simp: ex_returns_def sus)
  have c: "LoaderTask 0 \<in> set (suspended (final_state
     (run_steps ex_ReadToMemory ex_returns
        (ex_loaded_state\<lparr>mem := memcpy ex_elf_memory 0x20000000 0x80001054 4,
                          suspended := [LoaderTask 0]\<rparr>)
        [TimerExpired, Packet 0x2000 [2] nullptr])))"
    using comes_back by (auto simp: ex_returns_def sus simp del: run_steps.simps)
  from abi phent a b c show ?thesis by blast
qed

section \<open>Properties of the fallback timer\<close>

lemma elfloader_recv_keeps_timer:
  "command_of (mem s buffer) \<noteq> Some SetSize \<Longrightarrow>
   elfloader_recv s buffer len p = Inr s' \<Longrightarrow> usb_timer s' = usb_timer s"
  by (auto simp: elfloader_recv_def split: option.splits ElfloaderCommand.splits if_splits)

lemma recv_all_keeps_timer:
  "\<forall>(buffer, bs, p) \<in> set ps. usb_packet bs \<and> command_of (hd bs) \<noteq> Some SetSize \<Longrightarrow>
   recv_all s ps = Inr s' \<Longrightarrow> usb_timer s' = usb_timer s"
proof (induction ps arbitrary: s)
  case Nil
  then show ?case by simp
next
  case (Cons pkt ps)
  obtain buffer bs p where pkt: "pkt = (buffer, bs, p)"
    by (cases pkt) auto
  from Cons.prems(1) have ok: "usb_packet bs" "command_of (hd bs) \<noteq> Some SetSize"
    and rest: "\<forall>(buffer, bs, p) \<in> set ps. usb_packet bs \<and> command_of (hd bs) \<noteq> Some SetSize"
    by (simp_all add: pkt)
  from Cons.prems(2) obtain s1
    where s1: "elfloader_recv (deliver s buffer bs) buffer (of_nat (length bs)) p = Inr s1"
      and s': "recv_all s1 ps = Inr s'"
    by (auto simp: pkt split: sum.splits)
  have "command_of (mem (deliver s buffer bs) buffer) \<noteq> Some SetSize"
    using ok by (simp add: deliver_opcode)
  from elfloader_recv_keeps_timer [OF this s1]
  have "usb_timer s1 = usb_timer s"
    by (simp add: deliver_usb_timer)
  with Cons.IH [OF rest s'] show ?case by simp
qed

text \<open>
  C8. \<open>main\<close> creates \<open>usb_timer\<close> with a period of 500 ms and without auto-reload,
  bound to the USB task, and starts it. As long as no SetSize has come it stays active.
  When it expires, \<open>usb_timer_callback\<close> suspends the USB task and creates the loader
  task with the null parameter, and the timer is inactive from then on. Run with the
  null parameter, \<open>elfloader_main\<close> reads the file \<open>/default.elf\<close> and passes what it
  read to the same \<open>load_and_run\<close> that a host buffer goes through.
\<close>

theorem fallback_timer_expiry_loads_default_image:
  assumes "\<forall>(buffer, bs, p) \<in> set ps. usb_packet bs \<and> command_of (hd bs) \<noteq> Some SetSize"
    and "recv_all (boot m) ps = Inr s"
  shows "usb_timer s = \<lparr>period_ms = 500, auto_reload = False, timer_id = UsbDeviceTask,
                        active = True\<rparr> \<and>
         (\<exists>s'. program_step ReadToMemory entry_point_fn s TimerExpired = Inr s' \<and>
            suspended s' = suspended s @ [UsbDeviceTask] \<and>
            loader_tasks s' = loader_tasks s @ [nullptr] \<and>
            \<not> active (usb_timer s') \<and> mem s' = mem s \<and>
            program_step ReadToMemory entry_point_fn s' (RunLoader (length (loader_tasks s))) =
              load_and_run entry_point_fn (LoaderTask (length (loader_tasks s)))
                (s'\<lparr>mem := snd (ReadToMemory ''/default.elf'' (mem s))\<rparr>)
                (fst (ReadToMemory ''/default.elf'' (mem s)))) \<and>
         (\<forall>param self t. param \<noteq> nullptr \<longrightarrow>
            elfloader_main ReadToMemory entry_point_fn self t param =
              load_and_run entry_point_fn self t param)"
proof -
  have tm: "usb_timer s = \<lparr>period_ms = 500, auto_reload = False, timer_id = UsbDeviceTask,
                            active = True\<rparr>"
    using recv_all_keeps_timer [OF assms] by (simp add: boot_def)
  let ?s' = "usb_timer_callback
               (s\<lparr>usb_timer := (usb_timer s)\<lparr>active := auto_reload (usb_timer s)\<rparr>\<rparr>)"
  have step: "program_step ReadToMemory entry_point_fn s TimerExpired = Inr ?s'"
    by (simp add: program_step_def tm)
  have fields: "suspended ?s' = suspended s @ [UsbDeviceTask]"
    "loader_tasks ?s' = loader_tasks s @ [nullptr]"
    "\<not> active (usb_timer ?s')" "mem ?s' = mem s"
    by (simp_all add: usb_timer_callback_def tm)
  have run: "program_step ReadToMemory entry_point_fn ?s' (RunLoader (length (loader_tasks s))) =
      load_and_run entry_point_fn (LoaderTask (length (loader_tasks s)))
        (?s'\<lparr>mem := snd (ReadToMemory ''/default.elf'' (mem s))\<rparr>)
        (fst (ReadToMemory ''/default.elf'' (mem s)))"
    by (simp add: program_step_def fields elfloader_main_default)
  have host: "\<forall>param self t. param \<noteq> nullptr \<longrightarrow>
      elfloader_main ReadToMemory entry_point_fn self t param =
        load_and_run entry_point_fn self t param"
    by (simp add: elfloader_main_host)
  from tm step fields run host show ?thesis by blast
qed

theorem fallback_timer_expiry_loads_default_image_witness:
  "recv_all (boot zero_memory) ex_null_packets = Inr ex_null_state \<and>
   active (usb_timer ex_null_state) \<and> \<not> auto_reload (usb_timer ex_null_state) \<and>
   period_ms (usb_timer ex_null_state) = 500 \<and>
   (\<exists>s'. program_step ex_ReadToMemory ex_never_returns ex_null_state TimerExpired = Inr s' \<and>
      suspended s' = [UsbDeviceTask] \<and> loader_tasks s' = [nullptr] \<and>
      \<not> active (usb_timer s') \<and>
      program_step ex_ReadToMemory ex_never_returns s' (RunLoader 0) =
        load_and_run ex_never_returns (LoaderTask 0)
          (s'\<lparr>mem := store_bytes (mem ex_null_state) ex_image ex_elf_bytes\<rparr>) ex_image)"
proof -
  have ps: "\<forall>(buffer, bs, p) \<in> set ex_null_packets.
      usb_packet bs \<and> command_of (hd bs) \<noteq> Some SetSize"
    by (simp add: ex_null_packets_def usb_packet_def command_of_def)
  have run: "recv_all (boot zero_memory) ex_null_packets = Inr ex_null_state"
    by (simp add: ex_null_state_def ex_null_packets_def elfloader_recv_def deliver_def
        boot_def zero_memory_def command_of_def sizeof_ElfloaderBytes_def final_state_def)
  have fields: "suspended ex_null_state = []" "loader_tasks ex_null_state = []"
    by (simp_all add: ex_null_state_def ex_null_packets_def elfloader_recv_def deliver_def
        boot_def zero_memory_def command_of_def sizeof_ElfloaderBytes_def final_state_def)
  from fallback_timer_expiry_loads_default_image
         [OF ps run, of ex_ReadToMemory ex_never_returns]
  obtain s' where tm: "usb_timer ex_null_state =
        \<lparr>period_ms = 500, auto_reload = False, timer_id = UsbDeviceTask, active = True\<rparr>"
    and s': "program_step ex_ReadToMemory ex_never_returns ex_null_state TimerExpired = Inr s'"
      "suspended s' = suspended ex_null_state @ [UsbDeviceTask]"
      "loader_tasks s' = loader_tasks ex_null_state @ [nullptr]"
      "\<not> active (usb_timer s')"
      "program_step ex_ReadToMemory ex_never_returns s'
         (RunLoader (length (loader_tasks ex_null_state))) =
       load_and_run ex_never_returns (LoaderTask (length (loader_tasks ex_null_state)))
         (s'\<lparr>mem := snd (ex_ReadToMemory ''/default.elf'' (mem ex_null_state))\<rparr>)
         (fst (ex_ReadToMemory ''/default.elf'' (mem ex_null_state)))"
    by blast
  have "program_step ex_ReadToMemory ex_never_returns ex_null_state TimerExpired = Inr s' \<and>
      suspended s' = [UsbDeviceTask] \<and> loader_tasks s' = [nullptr] \<and>
      \<not> active (usb_timer s') \<and>
      program_step ex_ReadToMemory ex_never_returns s' (RunLoader 0) =
        load_and_run ex_never_returns (LoaderTask 0)
          (s'\<lparr>mem := store_bytes (mem ex_null_state) ex_image ex_elf_bytes\<rparr>) ex_image"
    using s' by (simp add: fields ex_ReadToMemory_def)
  then have "\<exists>s'. program_step ex_ReadToMemory ex_never_returns ex_null_state TimerExpired
        = Inr s' \<and>
      suspended s' = [UsbDeviceTask] \<and> loader_tasks s' = [nullptr] \<and>
      \<not> active (usb_timer s') \<and>
      program_step ex_ReadToMemory ex_never_returns s' (RunLoader 0) =
        load_and_run ex_never_returns (LoaderTask 0)
          (s'\<lparr>mem := store_bytes (mem ex_null_state) ex_image ex_elf_bytes\<rparr>) ex_image"
    by (rule exI)
  with run tm show ?thesis by simp
qed



section \<open>How many loads a boot can start\<close>













end
